theory Spec2Isabelle
  imports Main
begin

section \<open>Python primitives used by the booking system\<close>

text \<open>
  Python text is modelled as \<^typ>\<open>string\<close>: a list of characters with code points
  below 256. Python integers are \<^typ>\<open>int\<close>. An exception that leaves a method
  is a value \<open>Inl e\<close> of a sum type; an exception that the source catches is a branch
  of the model.
\<close>

datatype py_error = TypeError | ValueError

definition ord :: "char \<Rightarrow> nat" where
  "ord c = of_char c"

definition is_digit :: "char \<Rightarrow> bool" where
  "is_digit c = (48 \<le> ord c \<and> ord c \<le> 57)"

definition digit_val :: "char \<Rightarrow> int" where
  "digit_val c = int (ord c) - 48"

definition digit_char :: "nat \<Rightarrow> char" where
  "digit_char d = char_of (48 + d)"

text \<open>\<open>s.startswith(p)\<close> and \<open>sub in s\<close> on text.\<close>

definition startswith :: "string \<Rightarrow> string \<Rightarrow> bool" where
  "startswith s p = (take (length p) s = p)"

fun str_contains :: "string \<Rightarrow> string \<Rightarrow> bool" where
  "str_contains [] sub = (sub = [])"
| "str_contains (c # cs) sub = (startswith (c # cs) sub \<or> str_contains cs sub)"

text \<open>
  \<open>str.lower()\<close> is a function of the library on whole texts: on Unicode text it
  depends on the context of a letter and may change the length of the text, so it is
  not a map over the characters. The search takes it as a parameter \<open>lower\<close> and
  nothing is assumed of it. Only on text whose code points are all below 256 does it
  act letter by letter: A to Z and the accented capitals U+00C0 to U+00DE (without the
  multiplication sign U+00D7) move up by 32 and every other character stays. That
  instance, \<open>lower_latin1\<close>, serves to run the search on such text.
\<close>

definition lower_char_latin1 :: "char \<Rightarrow> char" where
  "lower_char_latin1 c =
     (let n = ord c
      in if (65 \<le> n \<and> n \<le> 90) \<or> (192 \<le> n \<and> n \<le> 222 \<and> n \<noteq> 215)
         then char_of (n + 32) else c)"

definition lower_latin1 :: "string \<Rightarrow> string" where
  "lower_latin1 s = map lower_char_latin1 s"

text \<open>
  \<open>int(text)\<close> in base 10: white space is stripped on both sides, one sign may
  follow, then decimal digits in which single underscores may stand between two
  digits. Anything else raises ValueError. The interpreter's configurable limit on
  the number of digits is not modelled.
\<close>

definition int_space :: "char \<Rightarrow> bool" where
  "int_space c = (ord c \<in> {9, 10, 11, 12, 13, 32, 133, 160})"

fun after_digit :: "int \<Rightarrow> string \<Rightarrow> int option" where
  "after_digit acc [] = Some acc"
| "after_digit acc [c] = (if is_digit c then Some (10 * acc + digit_val c) else None)"
| "after_digit acc (c # d # ds) =
     (if is_digit c then after_digit (10 * acc + digit_val c) (d # ds)
      else if c = CHR ''_'' \<and> is_digit d then after_digit (10 * acc + digit_val d) ds
      else None)"

definition parse_digits :: "string \<Rightarrow> int option" where
  "parse_digits s =
     (case s of [] \<Rightarrow> None
      | c # cs \<Rightarrow> if is_digit c then after_digit (digit_val c) cs else None)"

definition py_int :: "string \<Rightarrow> py_error + int" where
  "py_int s =
     (let t = rev (dropWhile int_space (rev (dropWhile int_space s)));
          r = (case t of [] \<Rightarrow> None
               | c # cs \<Rightarrow>
                   if c = CHR ''+'' then parse_digits cs
                   else if c = CHR ''-'' then map_option uminus (parse_digits cs)
                   else parse_digits t)
      in case r of None \<Rightarrow> Inl ValueError | Some n \<Rightarrow> Inr n)"

text \<open>The format specification \<open>04d\<close>: decimal, sign first, zero-padded to width 4.\<close>

fun digits_of :: "nat \<Rightarrow> string" where
  "digits_of n = (if n < 10 then [digit_char n] else digits_of (n div 10) @ [digit_char (n mod 10)])"

declare digits_of.simps [simp del]

definition zfill :: "nat \<Rightarrow> string \<Rightarrow> string" where
  "zfill w s = replicate (w - length s) CHR ''0'' @ s"

definition format_04d :: "int \<Rightarrow> string" where
  "format_04d n =
     (if n < 0 then CHR ''-'' # zfill 3 (digits_of (nat (- n))) else zfill 4 (digits_of (nat n)))"

section \<open>Calendar dates\<close>

text \<open>
  \<open>datetime.date\<close>: a year, a month and a day. Dates compare as the triples do,
  and the difference of two dates is the difference of their proleptic Gregorian
  ordinals.
\<close>

datatype date = Date (year: int) (month: int) (day: int)

definition date_lt :: "date \<Rightarrow> date \<Rightarrow> bool" where
  "date_lt a b =
     (year a < year b \<or>
      (year a = year b \<and> (month a < month b \<or> (month a = month b \<and> day a < day b))))"

definition is_leap :: "int \<Rightarrow> bool" where
  "is_leap y = (y mod 4 = 0 \<and> (y mod 100 \<noteq> 0 \<or> y mod 400 = 0))"

definition days_in_month :: "int \<Rightarrow> int \<Rightarrow> int" where
  "days_in_month y m =
     (if m = 2 \<and> is_leap y then 29
      else [31, 28, 31, 30, 31, 30, 31, 31, 30, 31, 30, 31] ! nat (m - 1))"

definition days_before_year :: "int \<Rightarrow> int" where
  "days_before_year y = (y - 1) * 365 + (y - 1) div 4 - (y - 1) div 100 + (y - 1) div 400"

definition days_before_month :: "int \<Rightarrow> int \<Rightarrow> int" where
  "days_before_month y m =
     [0, 31, 59, 90, 120, 151, 181, 212, 243, 273, 304, 334] ! nat (m - 1)
       + (if m > 2 \<and> is_leap y then 1 else 0)"

definition toordinal :: "date \<Rightarrow> int" where
  "toordinal d = days_before_year (year d) + days_before_month (year d) (month d) + day d"

text \<open>The constructor of a date refuses fields that are out of range.\<close>

definition check_date_fields :: "int \<Rightarrow> int \<Rightarrow> int \<Rightarrow> bool" where
  "check_date_fields y m d =
     (1 \<le> y \<and> y \<le> 9999 \<and> 1 \<le> m \<and> m \<le> 12 \<and> 1 \<le> d \<and> d \<le> days_in_month y m)"

text \<open>
  \<open>datetime.strptime(text, '%Y-%m-%d')\<close>. The library turns the format into the
  regular expression
  \<^verbatim>\<open>(\d\d\d\d)-(1[0-2]|0[1-9]|[1-9])-(3[0-1]|[1-2]\d|0[1-9]|[1-9]| [1-9])\<close>,
  matches it at the start of the text, trying the alternatives of a group from left
  to right, and raises ValueError when there is no match, when text remains after the
  match, or when the three numbers are not a date.
\<close>

definition nonzero_digits :: string where
  "nonzero_digits = ''123456789''"

definition all_digits :: string where
  "all_digits = ''0123456789''"

definition m_alts :: "string list" where
  "m_alts = [[CHR ''1'', b]. b \<leftarrow> ''012''] @ [[CHR ''0'', b]. b \<leftarrow> nonzero_digits]
            @ [[b]. b \<leftarrow> nonzero_digits]"

definition d_alts :: "string list" where
  "d_alts = [[CHR ''3'', b]. b \<leftarrow> ''01''] @ [[a, b]. a \<leftarrow> ''12'', b \<leftarrow> all_digits]
            @ [[CHR ''0'', b]. b \<leftarrow> nonzero_digits] @ [[b]. b \<leftarrow> nonzero_digits]
            @ [[CHR '' '', b]. b \<leftarrow> nonzero_digits]"

fun alt :: "string list \<Rightarrow> (string \<Rightarrow> string \<Rightarrow> 'a option) \<Rightarrow> string \<Rightarrow> 'a option" where
  "alt [] k s = None"
| "alt (t # ts) k s =
     (if startswith s t
      then (case k t (drop (length t) s) of Some r \<Rightarrow> Some r | None \<Rightarrow> alt ts k s)
      else alt ts k s)"

definition lit :: "char \<Rightarrow> (string \<Rightarrow> 'a option) \<Rightarrow> string \<Rightarrow> 'a option" where
  "lit c k s = (case s of [] \<Rightarrow> None | x # xs \<Rightarrow> if x = c then k xs else None)"

definition four_digits :: "(string \<Rightarrow> string \<Rightarrow> 'a option) \<Rightarrow> string \<Rightarrow> 'a option" where
  "four_digits k s =
     (if 4 \<le> length s \<and> list_all is_digit (take 4 s) then k (take 4 s) (drop 4 s) else None)"

definition regex_match :: "string \<Rightarrow> (string \<times> string \<times> string \<times> string) option" where
  "regex_match s =
     four_digits (\<lambda>Y. lit CHR ''-'' (alt m_alts (\<lambda>m. lit CHR ''-''
       (alt d_alts (\<lambda>d rest. Some (Y, m, d, rest)))))) s"

definition strptime :: "string \<Rightarrow> py_error + date" where
  "strptime s =
     (case regex_match s of
        None \<Rightarrow> Inl ValueError
      | Some (Y, m, d, rest) \<Rightarrow>
          if rest \<noteq> [] then Inl ValueError
          else (case (py_int Y, py_int m, py_int d) of
                  (Inr y, Inr mo, Inr dy) \<Rightarrow>
                    if check_date_fields y mo dy then Inr (Date y mo dy) else Inl ValueError
                | _ \<Rightarrow> Inl ValueError))"

text \<open>\<open>parse_date\<close> catches every exception of the parse and returns \<open>None\<close>.\<close>

definition parse_date :: "string \<Rightarrow> date option" where
  "parse_date date_str = (case strptime date_str of Inl _ \<Rightarrow> None | Inr d \<Rightarrow> Some d)"

definition calculate_nights :: "string \<Rightarrow> string \<Rightarrow> int option" where
  "calculate_nights check_in check_out =
     (case (parse_date check_in, parse_date check_out) of
        (Some date_in, Some date_out) \<Rightarrow> Some (toordinal date_out - toordinal date_in)
      | _ \<Rightarrow> None)"

text \<open>
  \<open>a < b\<close> on values that are dates or \<open>None\<close>: comparing with \<open>None\<close> raises
  TypeError. \<open>dates_overlap\<close> evaluates \<open>(start1 < end2) and (start2 < end1)\<close>, the
  second comparison only when the first is true.
\<close>

definition py_lt :: "date option \<Rightarrow> date option \<Rightarrow> py_error + bool" where
  "py_lt a b = (case (a, b) of (Some x, Some y) \<Rightarrow> Inr (date_lt x y) | _ \<Rightarrow> Inl TypeError)"

definition dates_overlap ::
  "date option \<Rightarrow> date option \<Rightarrow> date option \<Rightarrow> date option \<Rightarrow> py_error + bool" where
  "dates_overlap start1 end1 start2 end2 =
     (case py_lt start1 end2 of
        Inl e \<Rightarrow> Inl e
      | Inr False \<Rightarrow> Inr False
      | Inr True \<Rightarrow> py_lt start2 end1)"

section \<open>Data model\<close>

text \<open>
  A booking is the dictionary that \<open>create_booking\<close> builds, with every key present;
  \<open>cancelled_at\<close> is the one key that a booking may lack. Dates and time stamps are
  kept as text, as in the source. The room table is fixed by the constructor (the key
  \<open>total\<close> is the field \<open>total_units\<close> here).
\<close>

record booking =
  booking_id :: string
  guest_name :: string
  email :: string
  phone :: string
  room_type :: string
  check_in :: string
  check_out :: string
  guests :: int
  nights :: int
  total_price :: int
  status :: string
  created_at :: string
  cancelled_at :: "string option"

record room =
  price :: int
  total_units :: int

definition rooms :: "string \<Rightarrow> room option" where
  "rooms = map_of
     [(''single'', \<lparr>price = 2000, total_units = 10\<rparr>),
      (''double'', \<lparr>price = 2500, total_units = 8\<rparr>),
      (''suite'', \<lparr>price = 3000, total_units = 5\<rparr>)]"

text \<open>
  The state of a \<open>HotelBookingSystem\<close>: the ledger in memory, the contents of the
  file that \<open>save_bookings\<close> last wrote, and the number of times it was called.
\<close>

record system =
  bookings :: "booking list"
  disk :: "booking list"
  writes :: nat

definition save_bookings :: "system \<Rightarrow> system" where
  "save_bookings st = st\<lparr>disk := bookings st, writes := writes st + 1\<rparr>"

section \<open>Helpers\<close>

fun max_suffix :: "int \<Rightarrow> booking list \<Rightarrow> int" where
  "max_suffix max_n [] = max_n"
| "max_suffix max_n (b # bs) =
     max_suffix
       (if startswith (booking_id b) ''BK''
        then (case py_int (drop 2 (booking_id b)) of
                Inr n \<Rightarrow> if n > max_n then n else max_n
              | Inl _ \<Rightarrow> max_n)
        else max_n) bs"

definition generate_booking_id :: "system \<Rightarrow> string" where
  "generate_booking_id st = ''BK'' @ format_04d (max_suffix 0 (bookings st) + 1)"

section \<open>Availability\<close>

fun count_overlaps :: "date \<Rightarrow> date \<Rightarrow> string \<Rightarrow> int \<Rightarrow> booking list \<Rightarrow> py_error + int" where
  "count_overlaps date_in date_out rt count [] = Inr count"
| "count_overlaps date_in date_out rt count (b # bs) =
     (if room_type b \<noteq> rt then count_overlaps date_in date_out rt count bs
      else if status b \<noteq> ''confirmed'' then count_overlaps date_in date_out rt count bs
      else (case dates_overlap (Some date_in) (Some date_out)
                   (parse_date (check_in b)) (parse_date (check_out b)) of
              Inl e \<Rightarrow> Inl e
            | Inr ov \<Rightarrow>
                count_overlaps date_in date_out rt (if ov then count + 1 else count) bs))"

definition booked_count_for_range ::
  "system \<Rightarrow> string \<Rightarrow> string \<Rightarrow> string \<Rightarrow> py_error + int option" where
  "booked_count_for_range st rt ci co =
     (case (parse_date ci, parse_date co) of
        (Some date_in, Some date_out) \<Rightarrow>
          (case count_overlaps date_in date_out rt 0 (bookings st) of
             Inl e \<Rightarrow> Inl e
           | Inr n \<Rightarrow> Inr (Some n))
      | _ \<Rightarrow> Inr None)"

definition available_rooms_for_range ::
  "system \<Rightarrow> string \<Rightarrow> string \<Rightarrow> string \<Rightarrow> py_error + int option" where
  "available_rooms_for_range st rt ci co =
     (case rooms rt of
        None \<Rightarrow> Inr None
      | Some r \<Rightarrow>
          (case booked_count_for_range st rt ci co of
             Inl e \<Rightarrow> Inl e
           | Inr None \<Rightarrow> Inr None
           | Inr (Some booked) \<Rightarrow> Inr (Some (max 0 (total_units r - booked)))))"

section \<open>Ledger operations\<close>

text \<open>
  An operation returns its result and the state it leaves. \<open>now\<close> is the text of
  \<open>datetime.now().isoformat()\<close> at the call. A result \<open>Inl e\<close> is an exception
  that leaves the method.
\<close>

definition create_booking ::
  "system \<Rightarrow> string \<Rightarrow> string \<Rightarrow> string \<Rightarrow> string \<Rightarrow> string \<Rightarrow> string \<Rightarrow> string \<Rightarrow> int
     \<Rightarrow> (py_error + booking option \<times> string) \<times> system" where
  "create_booking st now gname mail ph rt ci co gs =
     (case rooms rt of
        None \<Rightarrow> (Inr (None, ''Invalid room type''), st)
      | Some r \<Rightarrow>
          (case calculate_nights ci co of
             None \<Rightarrow> (Inr (None, ''Invalid date format. Use YYYY-MM-DD''), st)
           | Some n \<Rightarrow>
               if n \<le> 0 then (Inr (None, ''Check-out must be after check-in''), st)
               else (case available_rooms_for_range st rt ci co of
                       Inl e \<Rightarrow> (Inl e, st)
                     | Inr None \<Rightarrow> (Inr (None, ''Error calculating availability''), st)
                     | Inr (Some available) \<Rightarrow>
                         if available \<le> 0
                         then (Inr (None, ''No '' @ rt @ '' rooms available for those dates''), st)
                         else
                           (let b = \<lparr>booking_id = generate_booking_id st,
                                     guest_name = gname, email = mail, phone = ph,
                                     room_type = rt, check_in = ci, check_out = co,
                                     guests = gs, nights = n, total_price = price r * n,
                                     status = ''confirmed'', created_at = now,
                                     cancelled_at = None\<rparr>
                            in (Inr (Some b, ''Booking created successfully''),
                                save_bookings (st\<lparr>bookings := bookings st @ [b]\<rparr>))))))"

fun get_booking_in :: "booking list \<Rightarrow> string \<Rightarrow> booking option" where
  "get_booking_in [] bid = None"
| "get_booking_in (b # bs) bid = (if booking_id b = bid then Some b else get_booking_in bs bid)"

definition get_booking :: "system \<Rightarrow> string \<Rightarrow> booking option" where
  "get_booking st bid = get_booking_in (bookings st) bid"

text \<open>
  The loop of \<open>cancel_booking\<close> stops at the first booking with the given id. It
  returns that booking, whether it changed it, and the ledger after the call.
\<close>

fun cancel_in :: "string \<Rightarrow> string \<Rightarrow> booking list \<Rightarrow> (booking \<times> bool \<times> booking list) option" where
  "cancel_in bid now [] = None"
| "cancel_in bid now (b # bs) =
     (if booking_id b = bid
      then (if status b = ''cancelled'' then Some (b, False, b # bs)
            else (let b' = b\<lparr>status := ''cancelled'', cancelled_at := Some now\<rparr>
                  in Some (b', True, b' # bs)))
      else (case cancel_in bid now bs of
              None \<Rightarrow> None
            | Some (r, changed, bs') \<Rightarrow> Some (r, changed, b # bs')))"

definition cancel_booking :: "system \<Rightarrow> string \<Rightarrow> string \<Rightarrow> booking option \<times> system" where
  "cancel_booking st now bid =
     (case cancel_in bid now (bookings st) of
        None \<Rightarrow> (None, st)
      | Some (r, changed, bs') \<Rightarrow>
          (Some r, if changed then save_bookings (st\<lparr>bookings := bs'\<rparr>) else st))"

text \<open>
  \<open>search_bookings\<close> lower-cases the query once and then, for each booking in turn,
  the three fields; \<open>lower\<close> is the library's \<open>str.lower\<close>.
\<close>

definition matches_query :: "(string \<Rightarrow> string) \<Rightarrow> string \<Rightarrow> booking \<Rightarrow> bool" where
  "matches_query lower query_lower b =
     (str_contains (lower (guest_name b)) query_lower \<or>
      str_contains (lower (email b)) query_lower \<or>
      str_contains (lower (booking_id b)) query_lower)"

fun search_loop ::
  "(string \<Rightarrow> string) \<Rightarrow> string \<Rightarrow> booking list \<Rightarrow> booking list \<Rightarrow> booking list" where
  "search_loop lower query_lower results [] = results"
| "search_loop lower query_lower results (b # bs) =
     search_loop lower query_lower
       (if matches_query lower query_lower b then results @ [b] else results) bs"

definition search_bookings :: "(string \<Rightarrow> string) \<Rightarrow> system \<Rightarrow> string \<Rightarrow> booking list" where
  "search_bookings lower st query = search_loop lower (lower query) [] (bookings st)"

section \<open>Notions of the specification\<close>

text \<open>
  The stored dates of a booking are well formed when both parse; \<open>create_booking\<close>
  stores no other dates. A booking is counted for a query when it has the room type,
  is confirmed and its stay overlaps the queried stay.
\<close>

definition stored_dates_ok :: "booking \<Rightarrow> bool" where
  "stored_dates_ok b = (parse_date (check_in b) \<noteq> None \<and> parse_date (check_out b) \<noteq> None)"

definition overlaps_query :: "date \<Rightarrow> date \<Rightarrow> booking \<Rightarrow> bool" where
  "overlaps_query date_in date_out b =
     (case (parse_date (check_in b), parse_date (check_out b)) of
        (Some b_in, Some b_out) \<Rightarrow> date_lt date_in b_out \<and> date_lt b_in date_out
      | _ \<Rightarrow> False)"

definition counted :: "date \<Rightarrow> date \<Rightarrow> string \<Rightarrow> booking \<Rightarrow> bool" where
  "counted date_in date_out rt b =
     (room_type b = rt \<and> status b = ''confirmed'' \<and> overlaps_query date_in date_out b)"

definition relevant_dates_ok :: "string \<Rightarrow> booking list \<Rightarrow> bool" where
  "relevant_dates_ok rt bs =
     list_all (\<lambda>b. room_type b \<noteq> rt \<or> status b \<noteq> ''confirmed'' \<or> stored_dates_ok b) bs"

definition not_cancelled :: "booking \<Rightarrow> bool" where
  "not_cancelled b = (status b \<noteq> ''cancelled'')"

text \<open>
  The number that a text of decimal digits denotes, and the number of a booking id:
  the value of what follows the prefix \<open>BK\<close> when \<open>int\<close> accepts it. The numbers of
  a ledger are the numbers of its well-formed ids.
\<close>

definition digits_value :: "string \<Rightarrow> int" where
  "digits_value ds = foldl (\<lambda>a c. 10 * a + digit_val c) 0 ds"

definition id_number :: "string \<Rightarrow> int option" where
  "id_number bid =
     (if startswith bid ''BK''
      then (case py_int (drop 2 bid) of Inr n \<Rightarrow> Some n | Inl _ \<Rightarrow> None)
      else None)"

definition id_numbers :: "booking list \<Rightarrow> int set" where
  "id_numbers bs = set (List.map_filter id_number (map booking_id bs))"

definition odd_ledger :: "booking list" where
  "odd_ledger =
     map (\<lambda>bid. \<lparr>booking_id = bid, guest_name = ''ASHA RAO'', email = ''asha@example.com'',
                  phone = ''555-0100'', room_type = ''double'', check_in = ''2024-04-01'',
                  check_out = ''2024-04-02'', guests = 2, nights = 1, total_price = 2500,
                  status = ''cancelled'', created_at = ''2024-01-01T09:00:00'',
                  cancelled_at = Some ''2024-01-02T09:00:00''\<rparr>)
       [''BK0007'', ''BKxyz'', ''AB0099'', ''BK 12 '', ''BK-5'', ''BK'']"

definition odd_system :: system where
  "odd_system = \<lparr>bookings = odd_ledger, disk = odd_ledger, writes = 0\<rparr>"

text \<open>
  A strict \<open>YYYY-MM-DD\<close> literal has ten characters: four digits, a hyphen, two
  digits, a hyphen, two digits. \<open>isoformat\<close> writes a date in this form, as
  \<open>date.isoformat()\<close> does.
\<close>

definition strict_ymd :: "string \<Rightarrow> bool" where
  "strict_ymd s =
     (length s = 10 \<and> s ! 4 = CHR ''-'' \<and> s ! 7 = CHR ''-''
      \<and> list_all is_digit (take 4 s @ take 2 (drop 5 s) @ drop 8 s))"

definition isoformat :: "date \<Rightarrow> string" where
  "isoformat dt =
     zfill 4 (digits_of (nat (year dt))) @ ''-'' @ zfill 2 (digits_of (nat (month dt)))
       @ ''-'' @ zfill 2 (digits_of (nat (day dt)))"

definition sample_booking :: "string \<Rightarrow> string \<Rightarrow> string \<Rightarrow> string \<Rightarrow> string \<Rightarrow> booking" where
  "sample_booking bid rt ci co st =
     \<lparr>booking_id = bid, guest_name = ''ASHA RAO'', email = ''asha@example.com'',
      phone = ''555-0100'', room_type = rt, check_in = ci, check_out = co, guests = 2,
      nights = 1, total_price = 2000, status = st, created_at = ''2024-01-01T09:00:00'',
      cancelled_at = None\<rparr>"

definition sample_ledger :: "booking list" where
  "sample_ledger =
     [sample_booking ''BK0001'' ''single'' ''2024-02-01'' ''2024-02-05'' ''confirmed'',
      sample_booking ''BK0002'' ''single'' ''2024-02-02'' ''2024-02-03'' ''cancelled'',
      sample_booking ''BK0003'' ''double'' ''2024-02-01'' ''2024-02-05'' ''confirmed'',
      sample_booking ''BK0004'' ''single'' ''2024-02-05'' ''2024-02-07'' ''confirmed'']"

definition sample_system :: system where
  "sample_system = \<lparr>bookings = sample_ledger, disk = sample_ledger, writes = 0\<rparr>"

definition suite_ledger :: "booking list" where
  "suite_ledger =
     map (\<lambda>bid. sample_booking bid ''suite'' ''2024-03-01'' ''2024-03-04'' ''confirmed'')
       [''BK0001'', ''BK0002'', ''BK0003'', ''BK0004'', ''BK0005'']"

definition suite_system :: system where
  "suite_system = \<lparr>bookings = suite_ledger, disk = suite_ledger, writes = 5\<rparr>"

text \<open>
  The second scenario of the specification: ten bookings of a single room for
  2024-02-01 to 2024-02-05, made one after the other on an empty ledger.
\<close>

definition empty_system :: system where
  "empty_system = \<lparr>bookings = [], disk = [], writes = 0\<rparr>"

definition scenario_create ::
  "system \<Rightarrow> string \<Rightarrow> string \<Rightarrow> (py_error + booking option \<times> string) \<times> system" where
  "scenario_create st ci co =
     create_booking st ''2024-01-15T10:00:00'' ''Ravi Kumar'' ''ravi@example.com'' ''555-0101''
       ''single'' ci co 1"

fun fill :: "nat \<Rightarrow> system \<Rightarrow> system" where
  "fill 0 st = st"
| "fill (Suc k) st = fill k (snd (scenario_create st ''2024-02-01'' ''2024-02-05''))"

definition full_system :: system where
  "full_system = fill 10 empty_system"

definition scenario_booking :: "string \<Rightarrow> string \<Rightarrow> string \<Rightarrow> int \<Rightarrow> booking" where
  "scenario_booking bid ci co n =
     \<lparr>booking_id = bid, guest_name = ''Ravi Kumar'', email = ''ravi@example.com'',
      phone = ''555-0101'', room_type = ''single'', check_in = ci, check_out = co, guests = 1,
      nights = n, total_price = 2000 * n, status = ''confirmed'',
      created_at = ''2024-01-15T10:00:00'', cancelled_at = None\<rparr>"

definition scenario_ledger :: "nat \<Rightarrow> booking list" where
  "scenario_ledger j =
     map (\<lambda>i. scenario_booking (''BK'' @ format_04d (int i)) ''2024-02-01'' ''2024-02-05'' 4)
       [1..<Suc j]"

definition scenario_system :: "nat \<Rightarrow> system" where
  "scenario_system j = \<lparr>bookings = scenario_ledger j, disk = scenario_ledger j, writes = j\<rparr>"

definition guest_ledger :: "booking list" where
  "guest_ledger =
     [sample_booking ''BK0001'' ''single'' ''2024-02-01'' ''2024-02-05'' ''confirmed'',
      (sample_booking ''BK0002'' ''double'' ''2024-02-02'' ''2024-02-03'' ''cancelled'')
        \<lparr>guest_name := ''BEN OKAFOR'', email := ''ben@example.org''\<rparr>,
      (sample_booking ''BK0003'' ''suite'' ''2024-02-01'' ''2024-02-05'' ''confirmed'')
        \<lparr>guest_name := ''Chen Wei'', email := ''chen@example.org''\<rparr>]"

definition guest_system :: system where
  "guest_system = \<lparr>bookings = guest_ledger, disk = guest_ledger, writes = 3\<rparr>"

section \<open>Properties of the date utilities\<close>

lemma date_lt_irrefl: "\<not> date_lt d d"
  by (simp add: date_lt_def)

text \<open>
  C3. For every four dates, \<open>dates_overlap\<close> returns true exactly when the first
  interval starts before the second ends and the second starts before the first
  ends. An interval that ends on day \<open>D\<close> and one that starts on day \<open>D\<close> do not
  overlap, in either order of the arguments.
\<close>

theorem dates_overlap_half_open:
  "dates_overlap (Some startA) (Some endA) (Some startB) (Some endB)
     = Inr (date_lt startA endB \<and> date_lt startB endA)
   \<and> dates_overlap (Some startA) (Some D) (Some D) (Some endB) = Inr False
   \<and> dates_overlap (Some D) (Some endB) (Some startA) (Some D) = Inr False"
  by (simp add: dates_overlap_def py_lt_def date_lt_irrefl split: bool.splits)

section \<open>Properties of the availability engine\<close>

lemma count_overlaps_counted:
  "relevant_dates_ok rt bs \<Longrightarrow>
   count_overlaps date_in date_out rt c bs
     = Inr (c + int (length (filter (counted date_in date_out rt) bs)))"
proof (induction bs arbitrary: c)
  case Nil
  then show ?case by simp
next
  case (Cons b bs)
  then have rest: "relevant_dates_ok rt bs"
    by (simp add: relevant_dates_ok_def)
  show ?case
  proof (cases "room_type b = rt \<and> status b = ''confirmed''")
    case False
    then show ?thesis
      using Cons.IH [OF rest] by (auto simp: counted_def)
  next
    case True
    with Cons.prems obtain b_in b_out
      where d: "parse_date (check_in b) = Some b_in" "parse_date (check_out b) = Some b_out"
      by (auto simp: relevant_dates_ok_def stored_dates_ok_def)
    show ?thesis
      using True d Cons.IH [OF rest]
      by (simp add: counted_def overlaps_query_def dates_overlap_def py_lt_def
               split: bool.splits)
  qed
qed

lemma count_overlaps_skip_cancelled:
  "count_overlaps date_in date_out rt c (filter not_cancelled bs)
     = count_overlaps date_in date_out rt c bs"
  by (induction bs arbitrary: c) (auto simp: not_cancelled_def split: sum.splits)

text \<open>
  C4. On a ledger whose confirmed bookings of the queried room type carry well-formed
  dates, and for query dates that parse, \<open>booked_count_for_range\<close> is the number of
  bookings that have the room type, are confirmed and overlap the queried interval.
  Removing the cancelled bookings from any ledger leaves the result as it is. The
  result is \<open>None\<close> whenever one of the query dates fails to parse.
\<close>

theorem booked_count_for_range_counts:
  "(relevant_dates_ok rt (bookings st) \<and> parse_date ci = Some date_in
      \<and> parse_date co = Some date_out \<longrightarrow>
      booked_count_for_range st rt ci co
        = Inr (Some (int (length (filter (counted date_in date_out rt) (bookings st))))))
   \<and> booked_count_for_range (st\<lparr>bookings := filter not_cancelled (bookings st)\<rparr>) rt ci co
        = booked_count_for_range st rt ci co
   \<and> (parse_date ci = None \<or> parse_date co = None \<longrightarrow>
        booked_count_for_range st rt ci co = Inr None)"
proof (intro conjI impI)
  assume "relevant_dates_ok rt (bookings st) \<and> parse_date ci = Some date_in
      \<and> parse_date co = Some date_out"
  then show "booked_count_for_range st rt ci co
        = Inr (Some (int (length (filter (counted date_in date_out rt) (bookings st)))))"
    by (simp add: booked_count_for_range_def count_overlaps_counted)
next
  show "booked_count_for_range (st\<lparr>bookings := filter not_cancelled (bookings st)\<rparr>) rt ci co
        = booked_count_for_range st rt ci co"
    by (simp add: booked_count_for_range_def count_overlaps_skip_cancelled split: option.splits)
next
  assume "parse_date ci = None \<or> parse_date co = None"
  then show "booked_count_for_range st rt ci co = Inr None"
    by (auto simp: booked_count_for_range_def split: option.splits)
qed

theorem booked_count_for_range_counts_witness:
  "relevant_dates_ok ''single'' (bookings sample_system)
   \<and> parse_date ''2024-02-04'' = Some (Date 2024 2 4)
   \<and> parse_date ''2024-02-06'' = Some (Date 2024 2 6)
   \<and> booked_count_for_range sample_system ''single'' ''2024-02-04'' ''2024-02-06'' = Inr (Some 2)
   \<and> parse_date ''2024-13-40'' = None
   \<and> booked_count_for_range sample_system ''single'' ''2024-13-40'' ''2024-02-06'' = Inr None"
proof -
  have h1: "relevant_dates_ok ''single'' (bookings sample_system)"
    by code_simp
  have h2: "parse_date ''2024-02-04'' = Some (Date 2024 2 4)"
    by code_simp
  have h3: "parse_date ''2024-02-06'' = Some (Date 2024 2 6)"
    by code_simp
  have h4: "parse_date ''2024-13-40'' = None"
    by code_simp
  have n: "int (length (filter (counted (Date 2024 2 4) (Date 2024 2 6) ''single'')
             (bookings sample_system))) = 2"
    by code_simp
  have a: "booked_count_for_range sample_system ''single'' ''2024-02-04'' ''2024-02-06''
             = Inr (Some 2)"
    using booked_count_for_range_counts
      [where rt = "''single''" and st = sample_system and ci = "''2024-02-04''"
         and co = "''2024-02-06''" and date_in = "Date 2024 2 4" and date_out = "Date 2024 2 6"]
      h1 h2 h3 n by simp
  have b: "booked_count_for_range sample_system ''single'' ''2024-13-40'' ''2024-02-06''
             = Inr None"
    using booked_count_for_range_counts
      [where rt = "''single''" and st = sample_system and ci = "''2024-13-40''"
         and co = "''2024-02-06''"]
      h4 by simp
  show ?thesis using h1 h2 h3 h4 a b by simp
qed

lemma count_overlaps_ge:
  "count_overlaps date_in date_out rt c bs = Inr n \<Longrightarrow> c \<le> n"
proof (induction bs arbitrary: c)
  case Nil
  then show ?case by simp
next
  case (Cons b bs)
  show ?case
  proof (cases "room_type b \<noteq> rt \<or> status b \<noteq> ''confirmed''")
    case True
    with Cons show ?thesis by (auto split: if_splits)
  next
    case False
    with Cons.prems obtain ov where
      "count_overlaps date_in date_out rt (if ov then c + 1 else c) bs = Inr n"
      by (auto split: sum.splits if_splits)
    from Cons.IH [OF this] show ?thesis by (simp split: if_splits)
  qed
qed

lemma booked_count_nonneg:
  "booked_count_for_range st rt ci co = Inr (Some booked) \<Longrightarrow> 0 \<le> booked"
  by (auto simp: booked_count_for_range_def split: option.splits sum.splits
           dest: count_overlaps_ge)

lemma rooms_total_nonneg: "rooms rt = Some r \<Longrightarrow> 0 \<le> total_units r"
  by (auto simp: rooms_def split: if_splits)

lemma booked_count_returns:
  "relevant_dates_ok rt (bookings st) \<Longrightarrow> parse_date ci \<noteq> None \<Longrightarrow> parse_date co \<noteq> None \<Longrightarrow>
   \<exists>booked. booked_count_for_range st rt ci co = Inr (Some booked)"
  by (auto simp: booked_count_for_range_def count_overlaps_counted)

text \<open>
  C2. For a known room type, \<open>available_rooms_for_range\<close> is the total number of
  units minus the booked count, clamped at zero, and so lies between zero and the
  total; on a ledger with well-formed dates and for query dates that parse it returns
  such a number. It returns \<open>None\<close>, never a negative number, when the room type is
  not in the table or when the booked count is \<open>None\<close>.
\<close>

theorem available_rooms_for_range_clamped:
  "(rooms rt = Some r \<and> booked_count_for_range st rt ci co = Inr (Some booked) \<longrightarrow>
      available_rooms_for_range st rt ci co = Inr (Some (max 0 (total_units r - booked)))
      \<and> 0 \<le> max 0 (total_units r - booked) \<and> max 0 (total_units r - booked) \<le> total_units r)
   \<and> (rooms rt = Some r \<and> relevant_dates_ok rt (bookings st)
        \<and> parse_date ci \<noteq> None \<and> parse_date co \<noteq> None \<longrightarrow>
        (\<exists>a. available_rooms_for_range st rt ci co = Inr (Some a) \<and> 0 \<le> a \<and> a \<le> total_units r))
   \<and> (rooms rt = None \<longrightarrow> available_rooms_for_range st rt ci co = Inr None)
   \<and> (booked_count_for_range st rt ci co = Inr None \<longrightarrow>
        available_rooms_for_range st rt ci co = Inr None)
   \<and> (available_rooms_for_range st rt ci co = Inr (Some a) \<longrightarrow> 0 \<le> a)"
proof (intro conjI impI)
  assume h: "rooms rt = Some r \<and> booked_count_for_range st rt ci co = Inr (Some booked)"
  then show "available_rooms_for_range st rt ci co = Inr (Some (max 0 (total_units r - booked)))"
    by (simp add: available_rooms_for_range_def)
  show "0 \<le> max 0 (total_units r - booked)" by simp
  from h have "0 \<le> booked" "0 \<le> total_units r"
    by (auto dest: booked_count_nonneg rooms_total_nonneg)
  then show "max 0 (total_units r - booked) \<le> total_units r" by simp
next
  assume h: "rooms rt = Some r \<and> relevant_dates_ok rt (bookings st)
        \<and> parse_date ci \<noteq> None \<and> parse_date co \<noteq> None"
  then obtain booked where b: "booked_count_for_range st rt ci co = Inr (Some booked)"
    using booked_count_returns by blast
  with h have "0 \<le> booked" "0 \<le> total_units r"
    by (auto dest: booked_count_nonneg rooms_total_nonneg)
  then have "max 0 (total_units r - booked) \<le> total_units r" by simp
  with h b show "\<exists>a. available_rooms_for_range st rt ci co = Inr (Some a) \<and> 0 \<le> a \<and> a \<le> total_units r"
    by (simp add: available_rooms_for_range_def)
next
  assume "rooms rt = None"
  then show "available_rooms_for_range st rt ci co = Inr None"
    by (simp add: available_rooms_for_range_def)
next
  assume "booked_count_for_range st rt ci co = Inr None"
  then show "available_rooms_for_range st rt ci co = Inr None"
    by (simp add: available_rooms_for_range_def split: option.splits)
next
  assume "available_rooms_for_range st rt ci co = Inr (Some a)"
  then show "0 \<le> a"
    by (auto simp: available_rooms_for_range_def split: option.splits sum.splits)
qed

theorem available_rooms_for_range_clamped_witness:
  "rooms ''single'' = Some \<lparr>price = 2000, total_units = 10\<rparr>
   \<and> booked_count_for_range sample_system ''single'' ''2024-02-04'' ''2024-02-06'' = Inr (Some 2)
   \<and> available_rooms_for_range sample_system ''single'' ''2024-02-04'' ''2024-02-06'' = Inr (Some 8)
   \<and> rooms ''penthouse'' = None
   \<and> available_rooms_for_range sample_system ''penthouse'' ''2024-02-04'' ''2024-02-06'' = Inr None
   \<and> booked_count_for_range sample_system ''single'' ''2024-02-04'' ''06/02/2024'' = Inr None
   \<and> available_rooms_for_range sample_system ''single'' ''2024-02-04'' ''06/02/2024'' = Inr None"
proof -
  have r: "rooms ''single'' = Some \<lparr>price = 2000, total_units = 10\<rparr>"
    by (simp add: rooms_def)
  have k: "booked_count_for_range sample_system ''single'' ''2024-02-04'' ''2024-02-06''
             = Inr (Some 2)"
    by code_simp
  have ok: "relevant_dates_ok ''single'' (bookings sample_system)
            \<and> parse_date ''2024-02-04'' \<noteq> None \<and> parse_date ''2024-02-06'' \<noteq> None"
    by code_simp
  have u: "rooms ''penthouse'' = None"
    by (simp add: rooms_def)
  have i: "booked_count_for_range sample_system ''single'' ''2024-02-04'' ''06/02/2024''
             = Inr None"
    by code_simp
  note t1 = available_rooms_for_range_clamped
      [where rt = "''single''" and st = sample_system and ci = "''2024-02-04''"
         and co = "''2024-02-06''" and booked = 2 and a = 8
         and r = "\<lparr>price = 2000, total_units = 10\<rparr>"]
  note t2 = available_rooms_for_range_clamped
      [where rt = "''penthouse''" and st = sample_system and ci = "''2024-02-04''"
         and co = "''2024-02-06''"]
  note t3 = available_rooms_for_range_clamped
      [where rt = "''single''" and st = sample_system and ci = "''2024-02-04''"
         and co = "''06/02/2024''"]
  have a: "available_rooms_for_range sample_system ''single'' ''2024-02-04'' ''2024-02-06''
             = Inr (Some 8)"
    using t1 r k ok by simp
  have b: "available_rooms_for_range sample_system ''penthouse'' ''2024-02-04'' ''2024-02-06''
             = Inr None"
    using t2 u by simp
  have c: "available_rooms_for_range sample_system ''single'' ''2024-02-04'' ''06/02/2024''
             = Inr None"
    using t3 i by simp
  show ?thesis using r k u i a b c by simp
qed

section \<open>Properties of the ledger operations\<close>

lemma calculate_nights_None:
  "calculate_nights ci co = None \<longleftrightarrow> parse_date ci = None \<or> parse_date co = None"
  by (auto simp: calculate_nights_def split: option.splits)

lemma available_known_not_None:
  "rooms rt = Some r \<Longrightarrow> calculate_nights ci co = Some n \<Longrightarrow>
   available_rooms_for_range st rt ci co \<noteq> Inr None"
  by (auto simp: available_rooms_for_range_def booked_count_for_range_def calculate_nights_def
           split: option.splits sum.splits)

text \<open>
  C1. \<open>create_booking\<close> checks in a fixed order and the first failure decides the
  answer. An unknown room type is rejected as such whatever the dates are. For a known
  room type, a date that does not parse is rejected with the date-format message;
  otherwise a stay of no night or less is rejected; otherwise an availability of
  \<open>None\<close> is rejected with the availability-error message and an availability of zero
  or less with the no-rooms message, which names the room type. Every rejection returns
  no booking together with its reason. (After the first two checks the availability is
  never \<open>None\<close>, see \<open>available_known_not_None\<close>.)
\<close>

theorem create_booking_validation_order:
  "(rooms rt = None \<longrightarrow>
      fst (create_booking st now gname mail ph rt ci co gs) = Inr (None, ''Invalid room type''))
   \<and> (rooms rt \<noteq> None \<and> (parse_date ci = None \<or> parse_date co = None) \<longrightarrow>
      fst (create_booking st now gname mail ph rt ci co gs)
        = Inr (None, ''Invalid date format. Use YYYY-MM-DD''))
   \<and> (rooms rt \<noteq> None \<and> calculate_nights ci co = Some n \<and> n \<le> 0 \<longrightarrow>
      fst (create_booking st now gname mail ph rt ci co gs)
        = Inr (None, ''Check-out must be after check-in''))
   \<and> (rooms rt \<noteq> None \<and> calculate_nights ci co = Some n \<and> 0 < n
        \<and> available_rooms_for_range st rt ci co = Inr av
        \<and> (av = None \<or> (\<exists>available. av = Some available \<and> available \<le> 0)) \<longrightarrow>
      fst (create_booking st now gname mail ph rt ci co gs)
        = Inr (None, case av of None \<Rightarrow> ''Error calculating availability''
                     | Some available \<Rightarrow> ''No '' @ rt @ '' rooms available for those dates''))"
proof (intro conjI impI)
  assume "rooms rt = None"
  then show "fst (create_booking st now gname mail ph rt ci co gs) = Inr (None, ''Invalid room type'')"
    by (simp add: create_booking_def)
next
  assume "rooms rt \<noteq> None \<and> (parse_date ci = None \<or> parse_date co = None)"
  then have "rooms rt \<noteq> None" "calculate_nights ci co = None"
    by (simp_all add: calculate_nights_None)
  then show "fst (create_booking st now gname mail ph rt ci co gs)
        = Inr (None, ''Invalid date format. Use YYYY-MM-DD'')"
    by (auto simp: create_booking_def)
next
  assume "rooms rt \<noteq> None \<and> calculate_nights ci co = Some n \<and> n \<le> 0"
  then show "fst (create_booking st now gname mail ph rt ci co gs)
        = Inr (None, ''Check-out must be after check-in'')"
    by (auto simp: create_booking_def)
next
  assume "rooms rt \<noteq> None \<and> calculate_nights ci co = Some n \<and> 0 < n
        \<and> available_rooms_for_range st rt ci co = Inr av
        \<and> (av = None \<or> (\<exists>available. av = Some available \<and> available \<le> 0))"
  then show "fst (create_booking st now gname mail ph rt ci co gs)
        = Inr (None, case av of None \<Rightarrow> ''Error calculating availability''
                     | Some available \<Rightarrow> ''No '' @ rt @ '' rooms available for those dates'')"
    by (auto simp: create_booking_def)
qed

theorem create_booking_validation_order_witness:
  "rooms ''penthouse'' = None
   \<and> fst (create_booking sample_system ''t'' ''Asha'' ''a@x.org'' ''1'' ''penthouse''
            ''2024-13-40'' ''2024-03-02'' 2) = Inr (None, ''Invalid room type'')
   \<and> rooms ''single'' \<noteq> None \<and> parse_date ''2024-13-40'' = None
   \<and> fst (create_booking sample_system ''t'' ''Asha'' ''a@x.org'' ''1'' ''single''
            ''2024-13-40'' ''2024-03-02'' 2) = Inr (None, ''Invalid date format. Use YYYY-MM-DD'')
   \<and> calculate_nights ''2024-03-05'' ''2024-03-05'' = Some 0
   \<and> fst (create_booking sample_system ''t'' ''Asha'' ''a@x.org'' ''1'' ''single''
            ''2024-03-05'' ''2024-03-05'' 2) = Inr (None, ''Check-out must be after check-in'')
   \<and> rooms ''suite'' \<noteq> None \<and> calculate_nights ''2024-03-02'' ''2024-03-03'' = Some 1
   \<and> available_rooms_for_range suite_system ''suite'' ''2024-03-02'' ''2024-03-03'' = Inr (Some 0)
   \<and> fst (create_booking suite_system ''t'' ''Asha'' ''a@x.org'' ''1'' ''suite''
            ''2024-03-02'' ''2024-03-03'' 2)
        = Inr (None, ''No suite rooms available for those dates'')"
proof -
  have r1: "rooms ''penthouse'' = None" and r2: "rooms ''single'' \<noteq> None"
    and r3: "rooms ''suite'' \<noteq> None"
    by (simp_all add: rooms_def)
  have d: "parse_date ''2024-13-40'' = None"
    by code_simp
  have n0: "calculate_nights ''2024-03-05'' ''2024-03-05'' = Some 0"
    by code_simp
  have n1: "calculate_nights ''2024-03-02'' ''2024-03-03'' = Some 1"
    by code_simp
  have av: "available_rooms_for_range suite_system ''suite'' ''2024-03-02'' ''2024-03-03''
              = Inr (Some 0)"
    by code_simp
  have a: "fst (create_booking sample_system ''t'' ''Asha'' ''a@x.org'' ''1'' ''penthouse''
            ''2024-13-40'' ''2024-03-02'' 2) = Inr (None, ''Invalid room type'')"
    using create_booking_validation_order [where rt = "''penthouse''"] r1 by simp
  have b: "fst (create_booking sample_system ''t'' ''Asha'' ''a@x.org'' ''1'' ''single''
            ''2024-13-40'' ''2024-03-02'' 2) = Inr (None, ''Invalid date format. Use YYYY-MM-DD'')"
    using create_booking_validation_order [where rt = "''single''" and ci = "''2024-13-40''"]
      r2 d by simp
  have c: "fst (create_booking sample_system ''t'' ''Asha'' ''a@x.org'' ''1'' ''single''
            ''2024-03-05'' ''2024-03-05'' 2) = Inr (None, ''Check-out must be after check-in'')"
    using create_booking_validation_order
      [where rt = "''single''" and ci = "''2024-03-05''" and co = "''2024-03-05''" and n = 0]
      r2 n0 by simp
  have e: "fst (create_booking suite_system ''t'' ''Asha'' ''a@x.org'' ''1'' ''suite''
            ''2024-03-02'' ''2024-03-03'' 2)
        = Inr (None, ''No suite rooms available for those dates'')"
    using create_booking_validation_order
      [where rt = "''suite''" and ci = "''2024-03-02''" and co = "''2024-03-03''" and n = 1
         and st = suite_system and av = "Some 0"]
      r3 n1 av by simp
  show ?thesis using r1 r2 r3 d n0 n1 av a b c e by simp
qed

text \<open>
  C10. \<open>create_booking\<close> changes nothing when it rejects: whenever it returns no
  booking, and also when the availability check raises, the state after the call is
  the state before it, so the ledger, the next booking id, the file and the number of
  saves are as they were. When it returns a booking, the ledger is the old ledger with
  that booking appended and has been saved once. The state changes on the accepted
  path only.
\<close>

theorem create_booking_atomic_on_failure:
  "(fst (create_booking st now gname mail ph rt ci co gs) = Inr (None, msg) \<longrightarrow>
      snd (create_booking st now gname mail ph rt ci co gs) = st
      \<and> generate_booking_id (snd (create_booking st now gname mail ph rt ci co gs))
          = generate_booking_id st)
   \<and> (fst (create_booking st now gname mail ph rt ci co gs) = Inl e \<longrightarrow>
      snd (create_booking st now gname mail ph rt ci co gs) = st)
   \<and> (fst (create_booking st now gname mail ph rt ci co gs) = Inr (Some b, msg) \<longrightarrow>
      snd (create_booking st now gname mail ph rt ci co gs)
        = st\<lparr>bookings := bookings st @ [b], disk := bookings st @ [b],
               writes := writes st + 1\<rparr>)
   \<and> (snd (create_booking st now gname mail ph rt ci co gs) \<noteq> st \<longrightarrow>
      (\<exists>b' msg'. fst (create_booking st now gname mail ph rt ci co gs) = Inr (Some b', msg')))"
  by (auto simp: create_booking_def save_bookings_def Let_def
           split: option.splits sum.splits if_splits)


theorem create_booking_atomic_on_failure_witness:
  "fst (create_booking sample_system ''t'' ''Asha'' ''a@x.org'' ''1'' ''penthouse''
          ''2024-03-01'' ''2024-03-02'' 2) = Inr (None, ''Invalid room type'')
   \<and> snd (create_booking sample_system ''t'' ''Asha'' ''a@x.org'' ''1'' ''penthouse''
          ''2024-03-01'' ''2024-03-02'' 2) = sample_system
   \<and> fst (scenario_create empty_system ''2024-02-05'' ''2024-02-06'')
        = Inr (Some (scenario_booking ''BK0001'' ''2024-02-05'' ''2024-02-06'' 1),
               ''Booking created successfully'')
   \<and> snd (scenario_create empty_system ''2024-02-05'' ''2024-02-06'')
        = \<lparr>bookings = [scenario_booking ''BK0001'' ''2024-02-05'' ''2024-02-06'' 1],
           disk = [scenario_booking ''BK0001'' ''2024-02-05'' ''2024-02-06'' 1],
           writes = 1\<rparr>
   \<and> snd (scenario_create empty_system ''2024-02-05'' ''2024-02-06'') \<noteq> empty_system"
proof -
  have a: "fst (create_booking sample_system ''t'' ''Asha'' ''a@x.org'' ''1'' ''penthouse''
          ''2024-03-01'' ''2024-03-02'' 2) = Inr (None, ''Invalid room type'')"
    by (simp add: create_booking_def rooms_def)
  have b: "fst (scenario_create empty_system ''2024-02-05'' ''2024-02-06'')
        = Inr (Some (scenario_booking ''BK0001'' ''2024-02-05'' ''2024-02-06'' 1),
               ''Booking created successfully'')"
    by code_simp
  have c: "snd (create_booking sample_system ''t'' ''Asha'' ''a@x.org'' ''1'' ''penthouse''
          ''2024-03-01'' ''2024-03-02'' 2) = sample_system"
    using create_booking_atomic_on_failure
      [where st = sample_system and rt = "''penthouse''" and msg = "''Invalid room type''"] a
    by blast
  have d: "snd (scenario_create empty_system ''2024-02-05'' ''2024-02-06'')
        = \<lparr>bookings = [scenario_booking ''BK0001'' ''2024-02-05'' ''2024-02-06'' 1],
           disk = [scenario_booking ''BK0001'' ''2024-02-05'' ''2024-02-06'' 1],
           writes = 1\<rparr>"
    using create_booking_atomic_on_failure
      [where st = empty_system and rt = "''single''" and ci = "''2024-02-05''"
         and co = "''2024-02-06''" and now = "''2024-01-15T10:00:00''"
         and gname = "''Ravi Kumar''" and mail = "''ravi@example.com''" and ph = "''555-0101''"
         and gs = 1 and msg = "''Booking created successfully''"
         and b = "scenario_booking ''BK0001'' ''2024-02-05'' ''2024-02-06'' 1"]
      b
    by (simp add: scenario_create_def empty_system_def)
  have e: "snd (scenario_create empty_system ''2024-02-05'' ''2024-02-06'') \<noteq> empty_system"
    unfolding d by (simp add: empty_system_def)
  show ?thesis using a b c d e by simp
qed

section \<open>Properties of booking ids\<close>

lemma ord_digit_char: "d < 10 \<Longrightarrow> ord (digit_char d) = 48 + d"
  by (simp add: ord_def digit_char_def)

lemma is_digit_digit_char: "d < 10 \<Longrightarrow> is_digit (digit_char d)"
  by (simp add: is_digit_def ord_digit_char)

lemma digit_val_digit_char: "d < 10 \<Longrightarrow> digit_val (digit_char d) = int d"
  by (simp add: digit_val_def ord_digit_char)

lemma is_digit_zero: "is_digit CHR ''0''" and digit_val_zero: "digit_val CHR ''0'' = 0"
  by (simp_all add: is_digit_def digit_val_def ord_def)

lemma is_digit_plain:
  "is_digit c \<Longrightarrow> \<not> int_space c \<and> c \<noteq> CHR ''+'' \<and> c \<noteq> CHR ''-''"
  by (auto simp: is_digit_def int_space_def ord_def)

lemma digits_of_all_digits: "list_all is_digit (digits_of n)"
proof (induction n rule: digits_of.induct)
  case (1 n)
  show ?case
  proof (cases "n < 10")
    case True
    then show ?thesis by (subst digits_of.simps) (simp add: is_digit_digit_char)
  next
    case False
    with 1 have "list_all is_digit (digits_of (n div 10))" by simp
    moreover have "is_digit (digit_char (n mod 10))" by (simp add: is_digit_digit_char)
    ultimately show ?thesis using False by (subst digits_of.simps) simp
  qed
qed

lemma digits_of_nonempty: "digits_of n \<noteq> []"
  by (subst digits_of.simps) simp

lemma digits_value_snoc: "digits_value (ds @ [c]) = 10 * digits_value ds + digit_val c"
  by (simp add: digits_value_def)

lemma digits_value_digits_of: "digits_value (digits_of n) = int n"
proof (induction n rule: digits_of.induct)
  case (1 n)
  show ?case
  proof (cases "n < 10")
    case True
    then show ?thesis
      by (subst digits_of.simps) (simp add: digits_value_def digit_val_digit_char)
  next
    case False
    with 1 have "digits_value (digits_of (n div 10)) = int (n div 10)" by simp
    then have "digits_value (digits_of (n div 10) @ [digit_char (n mod 10)])
                 = 10 * int (n div 10) + int (n mod 10)"
      by (simp add: digits_value_snoc digit_val_digit_char)
    also have "\<dots> = int n" by presburger
    finally show ?thesis using False by (subst digits_of.simps) simp
  qed
qed

lemma digits_value_zeros: "digits_value (replicate k CHR ''0'' @ ds) = digits_value ds"
proof -
  have "foldl (\<lambda>a c. 10 * a + digit_val c) 0 (replicate k CHR ''0'') = 0"
    by (induction k) (simp_all add: digit_val_zero)
  then show ?thesis by (simp add: digits_value_def)
qed

lemma after_digit_all_digits:
  "list_all is_digit ds \<Longrightarrow>
   after_digit acc ds = Some (foldl (\<lambda>a c. 10 * a + digit_val c) acc ds)"
  by (induction acc ds rule: after_digit.induct) auto

lemma py_int_all_digits:
  assumes "ds \<noteq> []" and "list_all is_digit ds"
  shows "py_int ds = Inr (digits_value ds)"
proof -
  from assms obtain c cs where ds: "ds = c # cs" and c: "is_digit c" and cs: "list_all is_digit cs"
    by (cases ds) auto
  from assms have "is_digit (last ds)"
    by (simp add: list_all_iff)
  then have "dropWhile int_space (last ds # rev (butlast ds)) = last ds # rev (butlast ds)"
    by (simp add: is_digit_plain)
  moreover from assms have "rev ds = last ds # rev (butlast ds)"
    by (cases ds rule: rev_cases) simp_all
  ultimately have strip_back: "dropWhile int_space (rev ds) = rev ds" by (simp only:)
  from c ds have front: "dropWhile int_space ds = ds" by (simp add: is_digit_plain)
  have stripped: "rev (dropWhile int_space (rev (dropWhile int_space ds))) = ds"
    by (simp only: front strip_back rev_rev_ident)
  have "parse_digits (c # cs) = Some (digits_value (c # cs))"
    using c cs by (simp add: parse_digits_def after_digit_all_digits digits_value_def)
  then show ?thesis
    unfolding py_int_def stripped using c by (simp add: ds is_digit_plain)
qed

lemma py_int_format_04d: "0 \<le> n \<Longrightarrow> py_int (format_04d n) = Inr n"
proof -
  assume n: "0 \<le> n"
  let ?s = "zfill 4 (digits_of (nat n))"
  have "?s \<noteq> []" by (simp add: zfill_def digits_of_nonempty)
  moreover have "list_all is_digit ?s"
    using digits_of_all_digits [of "nat n"]
    by (auto simp: zfill_def is_digit_zero list_all_iff simp del: digits_of.simps)
  ultimately have "py_int ?s = Inr (digits_value ?s)" by (rule py_int_all_digits)
  also have "digits_value ?s = n"
    using n by (simp add: zfill_def digits_value_zeros digits_value_digits_of del: digits_of.simps)
  finally show ?thesis using n by (simp add: format_04d_def del: digits_of.simps)
qed


lemma id_number_generated:
  "0 \<le> n \<Longrightarrow> id_number (CHR ''B'' # CHR ''K'' # format_04d n) = Some n"
  by (simp add: id_number_def startswith_def py_int_format_04d)

lemma id_numbers_iff:
  "n \<in> id_numbers bs \<longleftrightarrow> (\<exists>b \<in> set bs. id_number (booking_id b) = Some n)"
  by (induction bs) (auto simp: id_numbers_def split: option.splits)

lemma id_numbers_Cons:
  "id_numbers (b # bs)
     = (case id_number (booking_id b) of None \<Rightarrow> {} | Some n \<Rightarrow> {n}) \<union> id_numbers bs"
  by (auto simp: id_numbers_iff split: option.splits)

lemma finite_id_numbers: "finite (id_numbers bs)"
  by (simp add: id_numbers_def)

lemma max_suffix_step:
  "max_suffix m (b # bs)
     = max_suffix (case id_number (booking_id b) of None \<Rightarrow> m | Some n \<Rightarrow> max m n) bs"
  by (simp add: id_number_def max_def split: sum.splits)

lemma Max_insert_max:
  "finite S \<Longrightarrow> Max (insert (max m n) S) = Max (insert m (insert n S))" for m :: int
  by (cases "S = {}") (simp_all add: max.assoc)

lemma max_suffix_Max: "max_suffix m bs = Max (insert m (id_numbers bs))"
proof (induction bs arbitrary: m)
  case Nil
  then show ?case by (simp add: id_numbers_def)
next
  case (Cons b bs)
  show ?case
  proof (cases "id_number (booking_id b)")
    case None
    then show ?thesis
      by (simp only: max_suffix_step Cons.IH id_numbers_Cons) simp
  next
    case (Some n)
    then show ?thesis
      by (simp only: max_suffix_step Cons.IH id_numbers_Cons)
         (simp add: Max_insert_max finite_id_numbers)
  qed
qed

lemma max_suffix_nonneg: "0 \<le> max_suffix 0 bs"
  by (simp add: max_suffix_Max finite_id_numbers)

lemma id_number_le_max_suffix:
  "b \<in> set bs \<Longrightarrow> id_number (booking_id b) = Some n \<Longrightarrow> n \<le> max_suffix m bs"
proof -
  assume "b \<in> set bs" "id_number (booking_id b) = Some n"
  then have "n \<in> insert m (id_numbers bs)" by (auto simp: id_numbers_iff)
  then show ?thesis
    unfolding max_suffix_Max by (intro Max_ge) (simp_all add: finite_id_numbers)
qed

lemma max_suffix_mono:
  "id_numbers bs \<subseteq> id_numbers bs' \<Longrightarrow> max_suffix m bs \<le> max_suffix m bs'"
  unfolding max_suffix_Max
  by (intro Max_mono) (auto simp: finite_id_numbers)

lemma id_number_generate:
  "id_number (generate_booking_id st) = Some (max_suffix 0 (bookings st) + 1)"
  using max_suffix_nonneg [of "bookings st"]
  by (simp only: generate_booking_id_def) (simp add: id_number_generated)

lemma generate_booking_id_fresh:
  "generate_booking_id st \<notin> set (map booking_id (bookings st))"
proof
  assume "generate_booking_id st \<in> set (map booking_id (bookings st))"
  then obtain b where b: "b \<in> set (bookings st)" "booking_id b = generate_booking_id st"
    by auto
  then have "id_number (booking_id b) = Some (max_suffix 0 (bookings st) + 1)"
    by (simp add: id_number_generate)
  with b have "max_suffix 0 (bookings st) + 1 \<le> max_suffix 0 (bookings st)"
    by (blast intro: id_number_le_max_suffix)
  then show False by simp
qed

lemma max_suffix_append: "max_suffix m (xs @ ys) = max_suffix (max_suffix m xs) ys"
  by (induction xs arbitrary: m) simp_all

lemma max_suffix_snoc_generated:
  "booking_id b = ''BK'' @ format_04d (max_suffix 0 bs + 1) \<Longrightarrow>
   max_suffix 0 (bs @ [b]) = max_suffix 0 bs + 1"
proof -
  assume "booking_id b = ''BK'' @ format_04d (max_suffix 0 bs + 1)"
  then have "id_number (booking_id b) = Some (max_suffix 0 bs + 1)"
    using max_suffix_nonneg [of bs] by (simp add: id_number_generated)
  then show ?thesis
    by (simp only: max_suffix_append max_suffix_step) simp
qed

lemma format_04d_shape:
  "0 \<le> n \<Longrightarrow>
   list_all is_digit (format_04d n) \<and> digits_value (format_04d n) = n
   \<and> length (format_04d n) = max 4 (length (digits_of (nat n)))"
proof -
  assume n: "0 \<le> n"
  have "list_all is_digit (zfill 4 (digits_of (nat n)))"
    using digits_of_all_digits [of "nat n"]
    by (auto simp: zfill_def is_digit_zero list_all_iff simp del: digits_of.simps)
  moreover have "digits_value (zfill 4 (digits_of (nat n))) = n"
    using n by (simp add: zfill_def digits_value_zeros digits_value_digits_of del: digits_of.simps)
  moreover have "length (zfill 4 (digits_of (nat n))) = max 4 (length (digits_of (nat n)))"
    by (simp add: zfill_def del: digits_of.simps)
  ultimately show ?thesis using n by (simp add: format_04d_def del: digits_of.simps)
qed

lemma id_numbers_mono_ids:
  assumes "set (map booking_id bs) \<subseteq> set (map booking_id bs')"
  shows "id_numbers bs \<subseteq> id_numbers bs'"
proof
  fix n
  assume "n \<in> id_numbers bs"
  then obtain b where b: "b \<in> set bs" "id_number (booking_id b) = Some n"
    by (auto simp: id_numbers_iff)
  then have "booking_id b \<in> set (map booking_id bs')"
    using assms by auto
  then obtain b' where b': "b' \<in> set bs'" "booking_id b' = booking_id b"
    by auto
  with b have "id_number (booking_id b') = Some n"
    by simp
  with b' show "n \<in> id_numbers bs'"
    unfolding id_numbers_iff by blast
qed

lemma create_booking_accepted:
  "fst (create_booking st now gname mail ph rt ci co gs) = Inr (Some b, msg) \<Longrightarrow>
   booking_id b = generate_booking_id st
   \<and> bookings (snd (create_booking st now gname mail ph rt ci co gs)) = bookings st @ [b]"
  by (auto simp: create_booking_def save_bookings_def Let_def
           split: option.splits sum.splits if_splits)

text \<open>
  C7. \<open>generate_booking_id\<close> returns \<open>BK\<close> followed by one more than the greatest
  number among the well-formed ids of the ledger (zero when there is none), written in
  decimal and padded with zeros to four digits; ids whose suffix \<open>int\<close> refuses are
  ignored. The id returned is not the id of any booking of the ledger, cancelled or
  not. The number of the next id does not decrease when the ids of the ledger are kept
  (as creating and cancelling do), and after a booking is created the next id has the
  number of the new booking plus one.
\<close>

theorem generate_booking_id_next:
  "generate_booking_id st
     = ''BK'' @ format_04d (Max (insert 0 (id_numbers (bookings st))) + 1)
   \<and> list_all is_digit (drop 2 (generate_booking_id st))
   \<and> digits_value (drop 2 (generate_booking_id st))
        = Max (insert 0 (id_numbers (bookings st))) + 1
   \<and> length (drop 2 (generate_booking_id st))
        = max 4 (length (digits_of (nat (Max (insert 0 (id_numbers (bookings st))) + 1))))
   \<and> generate_booking_id st \<notin> set (map booking_id (bookings st))
   \<and> (set (map booking_id (bookings st)) \<subseteq> set (map booking_id (bookings st')) \<longrightarrow>
        (\<exists>n n'. id_number (generate_booking_id st) = Some n
               \<and> id_number (generate_booking_id st') = Some n' \<and> n \<le> n'))
   \<and> (fst (create_booking st now gname mail ph rt ci co gs) = Inr (Some b, msg) \<longrightarrow>
        (\<exists>n. id_number (booking_id b) = Some n
            \<and> id_number (generate_booking_id (snd (create_booking st now gname mail ph rt ci co gs)))
                = Some (n + 1)))"
proof (intro conjI impI)
  let ?M = "Max (insert 0 (id_numbers (bookings st)))"
  have M: "max_suffix 0 (bookings st) = ?M" by (rule max_suffix_Max)
  have M0: "0 \<le> ?M + 1" using max_suffix_nonneg [of "bookings st"] by (simp add: M)
  show g: "generate_booking_id st = ''BK'' @ format_04d (?M + 1)"
    by (simp add: generate_booking_id_def M)
  show "list_all is_digit (drop 2 (generate_booking_id st))"
    using format_04d_shape [OF M0] by (simp add: g)
  show "digits_value (drop 2 (generate_booking_id st)) = ?M + 1"
    using format_04d_shape [OF M0] by (simp add: g)
  show "length (drop 2 (generate_booking_id st)) = max 4 (length (digits_of (nat (?M + 1))))"
    using format_04d_shape [OF M0] by (simp add: g del: digits_of.simps)
  show "generate_booking_id st \<notin> set (map booking_id (bookings st))"
    by (rule generate_booking_id_fresh)
next
  assume "set (map booking_id (bookings st)) \<subseteq> set (map booking_id (bookings st'))"
  then have "id_numbers (bookings st) \<subseteq> id_numbers (bookings st')"
    by (rule id_numbers_mono_ids)
  then have "max_suffix 0 (bookings st) + 1 \<le> max_suffix 0 (bookings st') + 1"
    using max_suffix_mono by simp
  then show "\<exists>n n'. id_number (generate_booking_id st) = Some n
               \<and> id_number (generate_booking_id st') = Some n' \<and> n \<le> n'"
    by (simp add: id_number_generate)
next
  let ?r = "create_booking st now gname mail ph rt ci co gs"
  assume acc: "fst ?r = Inr (Some b, msg)"
  then have b: "booking_id b = generate_booking_id st"
    and st': "bookings (snd ?r) = bookings st @ [b]"
    using create_booking_accepted by blast+
  from b have n: "id_number (booking_id b) = Some (max_suffix 0 (bookings st) + 1)"
    by (simp add: id_number_generate)
  from b have "max_suffix 0 (bookings st @ [b]) = max_suffix 0 (bookings st) + 1"
    by (intro max_suffix_snoc_generated) (simp add: generate_booking_id_def)
  then have "id_number (generate_booking_id (snd ?r)) = Some (max_suffix 0 (bookings st) + 1 + 1)"
    by (simp add: id_number_generate st')
  with n show "\<exists>n. id_number (booking_id b) = Some n
            \<and> id_number (generate_booking_id (snd ?r)) = Some (n + 1)"
    by simp
qed


lemma scenario_first_booking:
  "scenario_create empty_system ''2024-02-05'' ''2024-02-06''
     = (Inr (Some (scenario_booking ''BK0001'' ''2024-02-05'' ''2024-02-06'' 1),
             ''Booking created successfully''),
        \<lparr>bookings = [scenario_booking ''BK0001'' ''2024-02-05'' ''2024-02-06'' 1],
         disk = [scenario_booking ''BK0001'' ''2024-02-05'' ''2024-02-06'' 1],
         writes = 1\<rparr>)"
  by code_simp

theorem generate_booking_id_next_witness:
  "generate_booking_id odd_system = ''BK0013''
   \<and> set (map booking_id (bookings empty_system)) \<subseteq> set (map booking_id (bookings sample_system))
   \<and> (\<exists>n n'. id_number (generate_booking_id empty_system) = Some n
             \<and> id_number (generate_booking_id sample_system) = Some n' \<and> n \<le> n')
   \<and> fst (scenario_create empty_system ''2024-02-05'' ''2024-02-06'')
        = Inr (Some (scenario_booking ''BK0001'' ''2024-02-05'' ''2024-02-06'' 1),
               ''Booking created successfully'')
   \<and> (\<exists>n. id_number (booking_id (scenario_booking ''BK0001'' ''2024-02-05'' ''2024-02-06'' 1))
              = Some n
          \<and> id_number (generate_booking_id
               (snd (scenario_create empty_system ''2024-02-05'' ''2024-02-06''))) = Some (n + 1))"
proof -
  have m: "Max (insert 0 (id_numbers (bookings odd_system))) = 12"
    by code_simp
  have f: "''BK'' @ format_04d 13 = ''BK0013''"
    by code_simp
  have a: "generate_booking_id odd_system = ''BK0013''"
    using generate_booking_id_next [where st = odd_system] m f by simp
  have s: "set (map booking_id (bookings empty_system))
             \<subseteq> set (map booking_id (bookings sample_system))"
    by (simp add: empty_system_def)
  have b: "\<exists>n n'. id_number (generate_booking_id empty_system) = Some n
             \<and> id_number (generate_booking_id sample_system) = Some n' \<and> n \<le> n'"
    using generate_booking_id_next [where st = empty_system and st' = sample_system] s
    by blast
  have c: "fst (scenario_create empty_system ''2024-02-05'' ''2024-02-06'')
        = Inr (Some (scenario_booking ''BK0001'' ''2024-02-05'' ''2024-02-06'' 1),
               ''Booking created successfully'')"
    by (simp add: scenario_first_booking)
  have d: "\<exists>n. id_number (booking_id (scenario_booking ''BK0001'' ''2024-02-05'' ''2024-02-06'' 1))
              = Some n
          \<and> id_number (generate_booking_id
               (snd (scenario_create empty_system ''2024-02-05'' ''2024-02-06''))) = Some (n + 1)"
    using generate_booking_id_next
      [where st = empty_system and rt = "''single''" and ci = "''2024-02-05''"
         and co = "''2024-02-06''" and now = "''2024-01-15T10:00:00''"
         and gname = "''Ravi Kumar''" and mail = "''ravi@example.com''" and ph = "''555-0101''"
         and gs = 1 and msg = "''Booking created successfully''"
         and b = "scenario_booking ''BK0001'' ''2024-02-05'' ''2024-02-06'' 1"]
      c
    unfolding scenario_create_def by blast
  show ?thesis using a s b c d by blast
qed

section \<open>Capacity and the second scenario\<close>

lemma available_counted:
  "rooms rt = Some r \<Longrightarrow> parse_date ci = Some date_in \<Longrightarrow> parse_date co = Some date_out \<Longrightarrow>
   relevant_dates_ok rt (bookings st) \<Longrightarrow>
   available_rooms_for_range st rt ci co
     = Inr (Some (max 0 (total_units r
                          - int (length (filter (counted date_in date_out rt) (bookings st))))))"
  by (simp add: available_rooms_for_range_def booked_count_for_range_def count_overlaps_counted)

lemma create_booking_accepts:
  assumes "rooms rt = Some r" and "parse_date ci = Some date_in"
    and "parse_date co = Some date_out"
    and "0 < toordinal date_out - toordinal date_in"
    and "relevant_dates_ok rt (bookings st)"
    and "int (length (filter (counted date_in date_out rt) (bookings st))) < total_units r"
    and "b = \<lparr>booking_id = generate_booking_id st, guest_name = gname, email = mail,
              phone = ph, room_type = rt, check_in = ci, check_out = co, guests = gs,
              nights = toordinal date_out - toordinal date_in,
              total_price = price r * (toordinal date_out - toordinal date_in),
              status = ''confirmed'', created_at = now, cancelled_at = None\<rparr>"
  shows "create_booking st now gname mail ph rt ci co gs
           = (Inr (Some b, ''Booking created successfully''),
              st\<lparr>bookings := bookings st @ [b], disk := bookings st @ [b],
                   writes := writes st + 1\<rparr>)"
  using assms
  by (simp add: create_booking_def calculate_nights_def available_counted save_bookings_def
        Let_def)

lemma create_booking_full:
  assumes "rooms rt = Some r" and "parse_date ci = Some date_in"
    and "parse_date co = Some date_out"
    and "0 < toordinal date_out - toordinal date_in"
    and "relevant_dates_ok rt (bookings st)"
    and "total_units r \<le> int (length (filter (counted date_in date_out rt) (bookings st)))"
  shows "create_booking st now gname mail ph rt ci co gs
           = (Inr (None, ''No '' @ rt @ '' rooms available for those dates''), st)"
  using assms
  by (simp add: create_booking_def calculate_nights_def available_counted)

lemma parse_feb_01: "parse_date ''2024-02-01'' = Some (Date 2024 2 1)"
  by code_simp

lemma parse_feb_02: "parse_date ''2024-02-02'' = Some (Date 2024 2 2)"
  by code_simp

lemma parse_feb_03: "parse_date ''2024-02-03'' = Some (Date 2024 2 3)"
  by code_simp

lemma parse_feb_05: "parse_date ''2024-02-05'' = Some (Date 2024 2 5)"
  by code_simp

lemma parse_feb_06: "parse_date ''2024-02-06'' = Some (Date 2024 2 6)"
  by code_simp

lemma feb_nights:
  "toordinal (Date 2024 2 5) - toordinal (Date 2024 2 1) = 4"
  "toordinal (Date 2024 2 3) - toordinal (Date 2024 2 2) = 1"
  "toordinal (Date 2024 2 6) - toordinal (Date 2024 2 5) = 1"
  by code_simp+

lemma rooms_single: "rooms ''single'' = Some \<lparr>price = 2000, total_units = 10\<rparr>"
  by (simp add: rooms_def)

lemma scenario_ledger_Suc:
  "scenario_ledger (Suc j)
     = scenario_ledger j
       @ [scenario_booking (''BK'' @ format_04d (int j + 1)) ''2024-02-01'' ''2024-02-05'' 4]"
  by (simp add: scenario_ledger_def add.commute)

lemma scenario_ledger_max: "max_suffix 0 (scenario_ledger j) = int j"
proof (induction j)
  case 0
  then show ?case by (simp add: scenario_ledger_def)
next
  case (Suc j)
  have "max_suffix 0 (scenario_ledger j
          @ [scenario_booking (''BK'' @ format_04d (int j + 1)) ''2024-02-01'' ''2024-02-05'' 4])
        = max_suffix 0 (scenario_ledger j) + 1"
    by (rule max_suffix_snoc_generated) (simp add: scenario_booking_def Suc.IH)
  then show ?case by (simp add: scenario_ledger_Suc Suc.IH)
qed

lemma scenario_ledger_dates_ok: "relevant_dates_ok ''single'' (scenario_ledger j)"
  by (simp add: relevant_dates_ok_def scenario_ledger_def list_all_iff stored_dates_ok_def
        scenario_booking_def parse_feb_01 parse_feb_05)

lemma scenario_ledger_counted:
  assumes "date_lt date_in (Date 2024 2 5)" and "date_lt (Date 2024 2 1) date_out"
  shows "filter (counted date_in date_out ''single'') (scenario_ledger j) = scenario_ledger j"
  using assms
  by (simp add: scenario_ledger_def counted_def overlaps_query_def scenario_booking_def
        parse_feb_01 parse_feb_05)

lemma scenario_ledger_not_counted:
  assumes "\<not> date_lt date_in (Date 2024 2 5)"
  shows "filter (counted date_in date_out ''single'') (scenario_ledger j) = []"
  using assms
  by (simp add: scenario_ledger_def counted_def overlaps_query_def scenario_booking_def
        parse_feb_01 parse_feb_05)

lemma length_scenario_ledger: "length (scenario_ledger j) = j"
  by (simp add: scenario_ledger_def)

lemma scenario_step:
  assumes "j < 10"
  shows "scenario_create (scenario_system j) ''2024-02-01'' ''2024-02-05''
           = (Inr (Some (scenario_booking (''BK'' @ format_04d (int j + 1))
                          ''2024-02-01'' ''2024-02-05'' 4),
                   ''Booking created successfully''),
              scenario_system (Suc j))"
proof -
  have c: "filter (counted (Date 2024 2 1) (Date 2024 2 5) ''single'') (scenario_ledger j)
             = scenario_ledger j"
    by (rule scenario_ledger_counted) (simp_all add: date_lt_def)
  show ?thesis
    unfolding scenario_create_def
    by (subst create_booking_accepts
          [OF rooms_single parse_feb_01 parse_feb_05 _ _ _ refl])
       (simp_all add: feb_nights scenario_system_def scenario_ledger_dates_ok c
          length_scenario_ledger assms generate_booking_id_def scenario_ledger_max
          scenario_booking_def scenario_ledger_Suc)
qed

lemma fill_scenario: "j + k \<le> 10 \<Longrightarrow> fill k (scenario_system j) = scenario_system (j + k)"
proof (induction k arbitrary: j)
  case 0
  then show ?case by simp
next
  case (Suc k)
  then have "j < 10" and "Suc j + k \<le> 10" by simp_all
  then show ?case
    using Suc.IH [of "Suc j"] by (simp add: scenario_step)
qed

lemma full_system_scenario: "full_system = scenario_system 10"
  using fill_scenario [of 0 10]
  by (simp add: full_system_def empty_system_def scenario_system_def scenario_ledger_def)


lemma scenario_ids:
  "map (\<lambda>i. ''BK'' @ format_04d (int i)) [1..<Suc 10]
     = [''BK0001'', ''BK0002'', ''BK0003'', ''BK0004'', ''BK0005'',
        ''BK0006'', ''BK0007'', ''BK0008'', ''BK0009'', ''BK0010'']"
  by code_simp

lemma scenario_ledger_10:
  "scenario_ledger 10
     = map (\<lambda>bid. scenario_booking bid ''2024-02-01'' ''2024-02-05'' 4)
         [''BK0001'', ''BK0002'', ''BK0003'', ''BK0004'', ''BK0005'',
          ''BK0006'', ''BK0007'', ''BK0008'', ''BK0009'', ''BK0010'']"
proof -
  have "scenario_ledger 10
          = map (\<lambda>bid. scenario_booking bid ''2024-02-01'' ''2024-02-05'' 4)
              (map (\<lambda>i. ''BK'' @ format_04d (int i)) [1..<Suc 10])"
    by (simp only: scenario_ledger_def map_map comp_def)
  then show ?thesis by (simp only: scenario_ids)
qed

lemma format_11: "''BK'' @ format_04d 11 = ''BK0011''"
  by code_simp

text \<open>
  C5. There are ten single rooms. After ten bookings of a single room for 2024-02-01
  to 2024-02-05, made one after the other on an empty ledger, all ten are in the ledger
  with the ids BK0001 to BK0010, confirmed. An eleventh request for 2024-02-02 to
  2024-02-03 is rejected with the no-rooms message and changes nothing. A twelfth
  request, for 2024-02-05 to 2024-02-06, is accepted as BK0011: the day of check-out
  is not occupied.
\<close>

theorem scenario_full_then_back_to_back:
  "rooms ''single'' = Some \<lparr>price = 2000, total_units = 10\<rparr>
   \<and> bookings full_system
       = map (\<lambda>bid. scenario_booking bid ''2024-02-01'' ''2024-02-05'' 4)
           [''BK0001'', ''BK0002'', ''BK0003'', ''BK0004'', ''BK0005'',
            ''BK0006'', ''BK0007'', ''BK0008'', ''BK0009'', ''BK0010'']
   \<and> scenario_create full_system ''2024-02-02'' ''2024-02-03''
       = (Inr (None, ''No single rooms available for those dates''), full_system)
   \<and> scenario_create (snd (scenario_create full_system ''2024-02-02'' ''2024-02-03''))
         ''2024-02-05'' ''2024-02-06''
       = (Inr (Some (scenario_booking ''BK0011'' ''2024-02-05'' ''2024-02-06'' 1),
               ''Booking created successfully''),
          \<lparr>bookings = bookings full_system
                         @ [scenario_booking ''BK0011'' ''2024-02-05'' ''2024-02-06'' 1],
           disk = bookings full_system
                    @ [scenario_booking ''BK0011'' ''2024-02-05'' ''2024-02-06'' 1],
           writes = 11\<rparr>)"
proof -
  have full: "bookings full_system = scenario_ledger 10" "writes full_system = 10"
    by (simp_all add: full_system_scenario scenario_system_def)
  have over: "filter (counted (Date 2024 2 2) (Date 2024 2 3) ''single'') (scenario_ledger 10)
                = scenario_ledger 10"
    by (rule scenario_ledger_counted) (simp_all add: date_lt_def)
  have free: "filter (counted (Date 2024 2 5) (Date 2024 2 6) ''single'') (scenario_ledger 10)
                = []"
    by (rule scenario_ledger_not_counted) (simp add: date_lt_def)
  have eleventh: "scenario_create full_system ''2024-02-02'' ''2024-02-03''
       = (Inr (None, ''No single rooms available for those dates''), full_system)"
    unfolding scenario_create_def
    by (subst create_booking_full [OF rooms_single parse_feb_02 parse_feb_03])
       (simp_all add: feb_nights full scenario_ledger_dates_ok over length_scenario_ledger)
  have twelfth: "scenario_create full_system ''2024-02-05'' ''2024-02-06''
       = (Inr (Some (scenario_booking ''BK0011'' ''2024-02-05'' ''2024-02-06'' 1),
               ''Booking created successfully''),
          \<lparr>bookings = bookings full_system
                         @ [scenario_booking ''BK0011'' ''2024-02-05'' ''2024-02-06'' 1],
           disk = bookings full_system
                    @ [scenario_booking ''BK0011'' ''2024-02-05'' ''2024-02-06'' 1],
           writes = 11\<rparr>)"
    unfolding scenario_create_def
    by (subst create_booking_accepts
          [OF rooms_single parse_feb_05 parse_feb_06 _ _ _ refl])
       (simp_all add: feb_nights full scenario_ledger_dates_ok free generate_booking_id_def
          scenario_ledger_max scenario_booking_def full_system_scenario scenario_system_def
          format_11 [simplified])
  show ?thesis
    by (simp only: eleventh twelfth snd_conv rooms_single full scenario_ledger_10)
qed

section \<open>Properties of cancellation\<close>

lemma get_booking_in_None:
  "get_booking_in bs bid = None \<longleftrightarrow> bid \<notin> set (map booking_id bs)"
  by (induction bs) auto

lemma get_booking_in_Some:
  "get_booking_in bs bid = Some b \<Longrightarrow> b \<in> set bs \<and> booking_id b = bid"
  by (induction bs) (auto split: if_splits)

lemma get_booking_in_first:
  "bid \<notin> set (map booking_id pre) \<Longrightarrow> booking_id b = bid \<Longrightarrow>
   get_booking_in (pre @ b # post) bid = Some b"
  by (induction pre) auto

lemma cancel_in_missing:
  "get_booking_in bs bid = None \<Longrightarrow> cancel_in bid now bs = None"
  by (induction bs) (auto split: if_splits)

lemma cancel_in_cancelled:
  "get_booking_in bs bid = Some b \<Longrightarrow> status b = ''cancelled'' \<Longrightarrow>
   cancel_in bid now bs = Some (b, False, bs)"
  by (induction bs) (auto split: if_splits)

lemma cancel_in_active:
  "get_booking_in bs bid = Some b \<Longrightarrow> status b \<noteq> ''cancelled'' \<Longrightarrow>
   \<exists>pre post. bs = pre @ b # post \<and> bid \<notin> set (map booking_id pre)
     \<and> cancel_in bid now bs
         = Some (b\<lparr>status := ''cancelled'', cancelled_at := Some now\<rparr>, True,
                 pre @ b\<lparr>status := ''cancelled'', cancelled_at := Some now\<rparr> # post)"
proof (induction bs)
  case Nil
  then show ?case by simp
next
  case (Cons a bs)
  show ?case
  proof (cases "booking_id a = bid")
    case True
    with Cons.prems have "a = b" by simp
    with True Cons.prems have
      "a # bs = [] @ b # bs \<and> bid \<notin> set (map booking_id [])
       \<and> cancel_in bid now (a # bs)
           = Some (b\<lparr>status := ''cancelled'', cancelled_at := Some now\<rparr>, True,
                   [] @ b\<lparr>status := ''cancelled'', cancelled_at := Some now\<rparr> # bs)"
      by (simp add: Let_def)
    then show ?thesis by blast
  next
    case False
    with Cons.prems have "get_booking_in bs bid = Some b" by simp
    from Cons.IH [OF this Cons.prems(2)] obtain pre post where
      p: "bs = pre @ b # post" "bid \<notin> set (map booking_id pre)"
         "cancel_in bid now bs
            = Some (b\<lparr>status := ''cancelled'', cancelled_at := Some now\<rparr>, True,
                    pre @ b\<lparr>status := ''cancelled'', cancelled_at := Some now\<rparr> # post)"
      by blast
    with False have
      "a # bs = (a # pre) @ b # post \<and> bid \<notin> set (map booking_id (a # pre))
       \<and> cancel_in bid now (a # bs)
           = Some (b\<lparr>status := ''cancelled'', cancelled_at := Some now\<rparr>, True,
                   (a # pre) @ b\<lparr>status := ''cancelled'', cancelled_at := Some now\<rparr> # post)"
      by auto
    then show ?thesis by blast
  qed
qed

lemma cancel_booking_missing:
  "get_booking st bid = None \<Longrightarrow> cancel_booking st now bid = (None, st)"
  by (simp add: cancel_booking_def get_booking_def cancel_in_missing)

lemma cancel_booking_cancelled:
  "get_booking st bid = Some b \<Longrightarrow> status b = ''cancelled'' \<Longrightarrow>
   cancel_booking st now bid = (Some b, st)"
  by (simp add: cancel_booking_def get_booking_def cancel_in_cancelled)

lemma cancel_booking_active:
  assumes "get_booking st bid = Some b" and "status b \<noteq> ''cancelled''"
  shows "\<exists>pre post. bookings st = pre @ b # post \<and> bid \<notin> set (map booking_id pre)
     \<and> cancel_booking st now bid
         = (Some (b\<lparr>status := ''cancelled'', cancelled_at := Some now\<rparr>),
            \<lparr>bookings = pre @ b\<lparr>status := ''cancelled'', cancelled_at := Some now\<rparr> # post,
             disk = pre @ b\<lparr>status := ''cancelled'', cancelled_at := Some now\<rparr> # post,
             writes = writes st + 1\<rparr>)"
proof -
  from assms obtain pre post where
    p: "bookings st = pre @ b # post" "bid \<notin> set (map booking_id pre)"
       "cancel_in bid now (bookings st)
          = Some (b\<lparr>status := ''cancelled'', cancelled_at := Some now\<rparr>, True,
                  pre @ b\<lparr>status := ''cancelled'', cancelled_at := Some now\<rparr> # post)"
    unfolding get_booking_def using cancel_in_active by blast
  then have "cancel_booking st now bid
         = (Some (b\<lparr>status := ''cancelled'', cancelled_at := Some now\<rparr>),
            \<lparr>bookings = pre @ b\<lparr>status := ''cancelled'', cancelled_at := Some now\<rparr> # post,
             disk = pre @ b\<lparr>status := ''cancelled'', cancelled_at := Some now\<rparr> # post,
             writes = writes st + 1\<rparr>)"
    by (simp add: cancel_booking_def save_bookings_def)
  with p show ?thesis by blast
qed

lemma cancel_booking_twice:
  assumes "get_booking st bid \<noteq> None"
  shows "cancel_booking (snd (cancel_booking st now bid)) later bid = cancel_booking st now bid"
proof -
  from assms obtain b where b: "get_booking st bid = Some b" by auto
  then have bid: "booking_id b = bid"
    by (auto simp: get_booking_def dest: get_booking_in_Some)
  show ?thesis
  proof (cases "status b = ''cancelled''")
    case True
    with b show ?thesis by (simp add: cancel_booking_cancelled)
  next
    case False
    let ?b' = "b\<lparr>status := ''cancelled'', cancelled_at := Some now\<rparr>"
    from cancel_booking_active [OF b False, of now] obtain pre post where
      p: "bid \<notin> set (map booking_id pre)"
         "cancel_booking st now bid
            = (Some ?b', \<lparr>bookings = pre @ ?b' # post, disk = pre @ ?b' # post,
                          writes = writes st + 1\<rparr>)"
      by blast
    let ?st1 = "\<lparr>bookings = pre @ ?b' # post, disk = pre @ ?b' # post, writes = writes st + 1\<rparr>"
    have "get_booking ?st1 bid = Some ?b'"
      using p(1) bid by (simp add: get_booking_def get_booking_in_first)
    then have "cancel_booking ?st1 later bid = (Some ?b', ?st1)"
      by (rule cancel_booking_cancelled) simp
    with p(2) show ?thesis by simp
  qed
qed


lemma cancel_booking_keeps_cancelled:
  "list_all2 (\<lambda>old new. status old = ''cancelled'' \<longrightarrow> new = old)
     (bookings st) (bookings (snd (cancel_booking st now bid)))"
proof (cases "get_booking st bid")
  case None
  then show ?thesis by (simp add: cancel_booking_missing list_all2_refl)
next
  case (Some b)
  show ?thesis
  proof (cases "status b = ''cancelled''")
    case True
    with Some show ?thesis by (simp add: cancel_booking_cancelled list_all2_refl)
  next
    case False
    from cancel_booking_active [OF Some False, of now] obtain pre post where
      p: "bookings st = pre @ b # post"
         "bookings (snd (cancel_booking st now bid))
            = pre @ b\<lparr>status := ''cancelled'', cancelled_at := Some now\<rparr> # post"
      by force
    have "list_all2 (\<lambda>old new. status old = ''cancelled'' \<longrightarrow> new = old) pre pre"
         "list_all2 (\<lambda>old new. status old = ''cancelled'' \<longrightarrow> new = old) post post"
      by (simp_all add: list_all2_refl)
    with False show ?thesis
      unfolding p by (intro list_all2_appendI) simp_all
  qed
qed

text \<open>
  C6. For an id of the ledger, \<open>cancel_booking\<close> acts on the first booking with that
  id. If that booking is not yet cancelled (in particular if it is confirmed), its
  status becomes \<open>cancelled\<close>, \<open>cancelled_at\<close> becomes the time of the call, the rest
  of the ledger stays, and the ledger is saved. If it is already cancelled, the booking
  is returned as it is and the state does not change. Hence a second call, at any later
  time, returns what the first call returned and leaves the state of the first call.
  For an id that is not in the ledger the result is \<open>None\<close> and the state does not
  change. No call changes a booking that is cancelled.
\<close>

theorem cancel_booking_idempotent:
  "(get_booking st bid = Some b \<and> status b \<noteq> ''cancelled'' \<longrightarrow>
      (\<exists>pre post. bookings st = pre @ b # post \<and> bid \<notin> set (map booking_id pre)
         \<and> cancel_booking st now bid
             = (Some (b\<lparr>status := ''cancelled'', cancelled_at := Some now\<rparr>),
                \<lparr>bookings = pre @ b\<lparr>status := ''cancelled'', cancelled_at := Some now\<rparr> # post,
                 disk = pre @ b\<lparr>status := ''cancelled'', cancelled_at := Some now\<rparr> # post,
                 writes = writes st + 1\<rparr>)))
   \<and> (get_booking st bid = Some b \<and> status b = ''cancelled'' \<longrightarrow>
        cancel_booking st now bid = (Some b, st))
   \<and> (bid \<in> set (map booking_id (bookings st)) \<longrightarrow>
        get_booking st bid \<noteq> None
        \<and> cancel_booking (snd (cancel_booking st now bid)) later bid
            = cancel_booking st now bid)
   \<and> (bid \<notin> set (map booking_id (bookings st)) \<longrightarrow> cancel_booking st now bid = (None, st))
   \<and> list_all2 (\<lambda>old new. status old = ''cancelled'' \<longrightarrow> new = old)
        (bookings st) (bookings (snd (cancel_booking st now bid)))"
proof (intro conjI impI)
  assume "get_booking st bid = Some b \<and> status b \<noteq> ''cancelled''"
  then show "\<exists>pre post. bookings st = pre @ b # post \<and> bid \<notin> set (map booking_id pre)
         \<and> cancel_booking st now bid
             = (Some (b\<lparr>status := ''cancelled'', cancelled_at := Some now\<rparr>),
                \<lparr>bookings = pre @ b\<lparr>status := ''cancelled'', cancelled_at := Some now\<rparr> # post,
                 disk = pre @ b\<lparr>status := ''cancelled'', cancelled_at := Some now\<rparr> # post,
                 writes = writes st + 1\<rparr>)"
    using cancel_booking_active by blast
next
  assume "get_booking st bid = Some b \<and> status b = ''cancelled''"
  then show "cancel_booking st now bid = (Some b, st)"
    by (simp add: cancel_booking_cancelled)
next
  assume "bid \<in> set (map booking_id (bookings st))"
  then show present: "get_booking st bid \<noteq> None"
    by (simp add: get_booking_def get_booking_in_None)
  then show "cancel_booking (snd (cancel_booking st now bid)) later bid
            = cancel_booking st now bid"
    by (rule cancel_booking_twice)
next
  assume "bid \<notin> set (map booking_id (bookings st))"
  then have "get_booking st bid = None"
    by (simp add: get_booking_def get_booking_in_None)
  then show "cancel_booking st now bid = (None, st)"
    by (rule cancel_booking_missing)
next
  show "list_all2 (\<lambda>old new. status old = ''cancelled'' \<longrightarrow> new = old)
        (bookings st) (bookings (snd (cancel_booking st now bid)))"
    by (rule cancel_booking_keeps_cancelled)
qed

theorem cancel_booking_idempotent_witness:
  "get_booking sample_system ''BK0001''
     = Some (sample_booking ''BK0001'' ''single'' ''2024-02-01'' ''2024-02-05'' ''confirmed'')
   \<and> fst (cancel_booking sample_system ''2024-01-20T08:00:00'' ''BK0001'')
       = Some ((sample_booking ''BK0001'' ''single'' ''2024-02-01'' ''2024-02-05'' ''cancelled'')
                \<lparr>cancelled_at := Some ''2024-01-20T08:00:00''\<rparr>)
   \<and> writes (snd (cancel_booking sample_system ''2024-01-20T08:00:00'' ''BK0001'')) = 1
   \<and> cancel_booking (snd (cancel_booking sample_system ''2024-01-20T08:00:00'' ''BK0001''))
        ''2024-01-21T08:00:00'' ''BK0001''
       = cancel_booking sample_system ''2024-01-20T08:00:00'' ''BK0001''
   \<and> get_booking sample_system ''BK0002''
       = Some (sample_booking ''BK0002'' ''single'' ''2024-02-02'' ''2024-02-03'' ''cancelled'')
   \<and> cancel_booking sample_system ''2024-01-20T08:00:00'' ''BK0002''
       = (Some (sample_booking ''BK0002'' ''single'' ''2024-02-02'' ''2024-02-03'' ''cancelled''),
          sample_system)
   \<and> ''BK9999'' \<notin> set (map booking_id (bookings sample_system))
   \<and> cancel_booking sample_system ''2024-01-20T08:00:00'' ''BK9999'' = (None, sample_system)"
proof -
  let ?b1 = "sample_booking ''BK0001'' ''single'' ''2024-02-01'' ''2024-02-05'' ''confirmed''"
  let ?b2 = "sample_booking ''BK0002'' ''single'' ''2024-02-02'' ''2024-02-03'' ''cancelled''"
  let ?now = "''2024-01-20T08:00:00''"
  have g1: "get_booking sample_system ''BK0001'' = Some ?b1"
    and g2: "get_booking sample_system ''BK0002'' = Some ?b2"
    by (simp_all add: get_booking_def sample_system_def sample_ledger_def sample_booking_def)
  have s1: "status ?b1 \<noteq> ''cancelled''" and s2: "status ?b2 = ''cancelled''"
    by (simp_all add: sample_booking_def)
  have in1: "''BK0001'' \<in> set (map booking_id (bookings sample_system))"
    and out: "''BK9999'' \<notin> set (map booking_id (bookings sample_system))"
    by (simp_all add: sample_system_def sample_ledger_def sample_booking_def)
  note t1 = cancel_booking_idempotent
    [where st = sample_system and bid = "''BK0001''" and b = ?b1 and now = ?now
       and later = "''2024-01-21T08:00:00''"]
  note t2 = cancel_booking_idempotent
    [where st = sample_system and bid = "''BK0002''" and b = ?b2 and now = ?now]
  note t3 = cancel_booking_idempotent
    [where st = sample_system and bid = "''BK9999''" and now = ?now]
  from t1 g1 s1 obtain pre post where
    c1: "cancel_booking sample_system ?now ''BK0001''
           = (Some (?b1\<lparr>status := ''cancelled'', cancelled_at := Some ?now\<rparr>),
              \<lparr>bookings = pre @ ?b1\<lparr>status := ''cancelled'', cancelled_at := Some ?now\<rparr> # post,
               disk = pre @ ?b1\<lparr>status := ''cancelled'', cancelled_at := Some ?now\<rparr> # post,
               writes = writes sample_system + 1\<rparr>)"
    by blast
  have a: "fst (cancel_booking sample_system ?now ''BK0001'')
       = Some ((sample_booking ''BK0001'' ''single'' ''2024-02-01'' ''2024-02-05'' ''cancelled'')
                \<lparr>cancelled_at := Some ?now\<rparr>)"
    unfolding c1 by (simp add: sample_booking_def)
  have w: "writes (snd (cancel_booking sample_system ?now ''BK0001'')) = 1"
    unfolding c1 by (simp add: sample_system_def)
  have twice: "cancel_booking (snd (cancel_booking sample_system ?now ''BK0001''))
        ''2024-01-21T08:00:00'' ''BK0001'' = cancel_booking sample_system ?now ''BK0001''"
    using t1 in1 by blast
  have c2: "cancel_booking sample_system ?now ''BK0002'' = (Some ?b2, sample_system)"
    using t2 g2 s2 by blast
  have c3: "cancel_booking sample_system ?now ''BK9999'' = (None, sample_system)"
    using t3 out by blast
  show ?thesis using g1 a w twice g2 c2 out c3 by blast
qed

section \<open>Properties of the search\<close>

lemma startswith_iff: "startswith s p \<longleftrightarrow> (\<exists>r. s = p @ r)"
proof
  assume "startswith s p"
  then have "s = p @ drop (length p) s"
    by (metis append_take_drop_id startswith_def)
  then show "\<exists>r. s = p @ r" ..
next
  assume "\<exists>r. s = p @ r"
  then show "startswith s p" by (auto simp: startswith_def)
qed

lemma str_contains_iff: "str_contains s sub \<longleftrightarrow> (\<exists>pre post. s = pre @ sub @ post)"
proof (induction s)
  case Nil
  then show ?case by auto
next
  case (Cons c cs)
  show ?case
  proof
    assume "str_contains (c # cs) sub"
    then consider "startswith (c # cs) sub" | "str_contains cs sub" by auto
    then show "\<exists>pre post. c # cs = pre @ sub @ post"
    proof cases
      case 1
      then obtain r where "c # cs = sub @ r" by (auto simp: startswith_iff)
      then have "c # cs = [] @ sub @ r" by simp
      then show ?thesis by blast
    next
      case 2
      with Cons.IH obtain pre post where "cs = pre @ sub @ post" by blast
      then have "c # cs = (c # pre) @ sub @ post" by simp
      then show ?thesis by blast
    qed
  next
    assume "\<exists>pre post. c # cs = pre @ sub @ post"
    then obtain pre post where p: "c # cs = pre @ sub @ post" by blast
    show "str_contains (c # cs) sub"
    proof (cases pre)
      case Nil
      with p have "startswith (c # cs) sub" by (auto simp: startswith_iff)
      then show ?thesis by simp
    next
      case (Cons a pre')
      with p have "cs = pre' @ sub @ post" by simp
      with Cons.IH have "str_contains cs sub" by blast
      then show ?thesis by simp
    qed
  qed
qed

lemma search_loop_filter:
  "search_loop lower q results bs = results @ filter (matches_query lower q) bs"
  by (induction bs arbitrary: results) simp_all

lemma matches_query_iff:
  "matches_query lower q
     = (\<lambda>b. (\<exists>pre post. lower (guest_name b) = pre @ q @ post)
           \<or> (\<exists>pre post. lower (email b) = pre @ q @ post)
           \<or> (\<exists>pre post. lower (booking_id b) = pre @ q @ post))"
  by (rule ext) (simp add: matches_query_def str_contains_iff)

text \<open>
  C8. Whatever function \<open>str.lower\<close> is, \<open>search_bookings\<close> returns, in the order of
  the ledger, exactly the bookings, confirmed or cancelled, for which the lower-cased
  query occurs in the lower-cased guest name, email or booking id. In particular a
  query that is in lower case (lower-casing leaves it as it is) and is a fragment of
  the lower-cased guest name finds the booking, however the name is stored; and two
  queries that differ in the case of their letters only give the same result.
\<close>

theorem search_bookings_case_insensitive:
  "search_bookings lower st query
     = filter (\<lambda>b. (\<exists>pre post. lower (guest_name b) = pre @ lower query @ post)
                 \<or> (\<exists>pre post. lower (email b) = pre @ lower query @ post)
                 \<or> (\<exists>pre post. lower (booking_id b) = pre @ lower query @ post))
         (bookings st)
   \<and> (b \<in> set (bookings st) \<and> lower query = query
        \<and> lower (guest_name b) = pre @ query @ post
        \<longrightarrow> b \<in> set (search_bookings lower st query))
   \<and> (lower query = lower query' \<longrightarrow>
        search_bookings lower st query = search_bookings lower st query')"
proof (intro conjI impI)
  show eq: "search_bookings lower st query
     = filter (\<lambda>b. (\<exists>pre post. lower (guest_name b) = pre @ lower query @ post)
                 \<or> (\<exists>pre post. lower (email b) = pre @ lower query @ post)
                 \<or> (\<exists>pre post. lower (booking_id b) = pre @ lower query @ post))
         (bookings st)"
    by (simp add: search_bookings_def search_loop_filter matches_query_iff)
  assume "b \<in> set (bookings st) \<and> lower query = query
        \<and> lower (guest_name b) = pre @ query @ post"
  then have "b \<in> set (bookings st)" and "lower (guest_name b) = pre @ lower query @ post"
    by simp_all
  then show "b \<in> set (search_bookings lower st query)"
    unfolding eq by auto
next
  assume "lower query = lower query'"
  then show "search_bookings lower st query = search_bookings lower st query'"
    by (simp add: search_bookings_def)
qed

theorem search_bookings_case_insensitive_witness:
  "guest_ledger ! 1 \<in> set (bookings guest_system)
   \<and> guest_name (guest_ledger ! 1) = ''BEN OKAFOR''
   \<and> lower_latin1 ''okafor'' = ''okafor''
   \<and> lower_latin1 (guest_name (guest_ledger ! 1)) = ''ben '' @ ''okafor'' @ []
   \<and> guest_ledger ! 1 \<in> set (search_bookings lower_latin1 guest_system ''okafor'')
   \<and> search_bookings lower_latin1 guest_system ''okafor'' = [guest_ledger ! 1]
   \<and> status (guest_ledger ! 1) = ''cancelled''
   \<and> lower_latin1 ''OKAFOR'' = lower_latin1 ''okafor''
   \<and> search_bookings lower_latin1 guest_system ''OKAFOR''
       = search_bookings lower_latin1 guest_system ''okafor''
   \<and> map booking_id (search_bookings lower_latin1 guest_system ''EXAMPLE.ORG'')
       = [''BK0002'', ''BK0003'']"
proof -
  have h1: "guest_ledger ! 1 \<in> set (bookings guest_system)"
    by (simp add: guest_system_def guest_ledger_def)
  have n: "guest_name (guest_ledger ! 1) = ''BEN OKAFOR''"
    by (simp add: guest_ledger_def sample_booking_def)
  have h2: "lower_latin1 ''okafor'' = ''okafor''"
    by code_simp
  have h3: "lower_latin1 (guest_name (guest_ledger ! 1)) = ''ben '' @ ''okafor'' @ []"
    unfolding n by code_simp
  have h4: "lower_latin1 ''OKAFOR'' = lower_latin1 ''okafor''"
    by code_simp
  have a: "guest_ledger ! 1 \<in> set (search_bookings lower_latin1 guest_system ''okafor'')"
    using search_bookings_case_insensitive
      [where lower = lower_latin1 and st = guest_system and b = "guest_ledger ! 1"
         and pre = "''ben ''" and post = "[]" and query = "''okafor''"]
      h1 h2 h3 by blast
  have q: "search_bookings lower_latin1 guest_system ''OKAFOR''
             = search_bookings lower_latin1 guest_system ''okafor''"
    using search_bookings_case_insensitive
      [where lower = lower_latin1 and st = guest_system and query = "''OKAFOR''"
         and query' = "''okafor''"]
      h4 by blast
  have e: "search_bookings lower_latin1 guest_system ''okafor'' = [guest_ledger ! 1]"
    by code_simp
  have c: "status (guest_ledger ! 1) = ''cancelled''"
    by (simp add: guest_ledger_def sample_booking_def)
  have m: "map booking_id (search_bookings lower_latin1 guest_system ''EXAMPLE.ORG'')
             = [''BK0002'', ''BK0003'']"
    by code_simp
  show ?thesis using h1 n h2 h3 h4 a q e c m by blast
qed

section \<open>Properties of the date parser\<close>

lemma four_digits_Some:
  "four_digits k s = Some r \<longleftrightarrow>
   (\<exists>Y rest. s = Y @ rest \<and> length Y = 4 \<and> list_all is_digit Y \<and> k Y rest = Some r)"
proof
  assume a: "four_digits k s = Some r"
  then have "4 \<le> length s" "list_all is_digit (take 4 s)" "k (take 4 s) (drop 4 s) = Some r"
    by (auto simp: four_digits_def split: if_splits)
  then have "s = take 4 s @ drop 4 s \<and> length (take 4 s) = 4 \<and> list_all is_digit (take 4 s)
             \<and> k (take 4 s) (drop 4 s) = Some r"
    by simp
  then show "\<exists>Y rest. s = Y @ rest \<and> length Y = 4 \<and> list_all is_digit Y \<and> k Y rest = Some r"
    by blast
next
  assume "\<exists>Y rest. s = Y @ rest \<and> length Y = 4 \<and> list_all is_digit Y \<and> k Y rest = Some r"
  then show "four_digits k s = Some r"
    by (auto simp: four_digits_def)
qed

lemma lit_Some: "lit c k s = Some r \<longleftrightarrow> (\<exists>xs. s = c # xs \<and> k xs = Some r)"
  by (cases s) (auto simp: lit_def)

lemma alt_Some_D:
  "alt ts k s = Some r \<Longrightarrow> \<exists>t \<in> set ts. \<exists>s'. s = t @ s' \<and> k t s' = Some r"
proof (induction ts)
  case Nil
  then show ?case by simp
next
  case (Cons t ts)
  show ?case
  proof (cases "startswith s t \<and> k t (drop (length t) s) \<noteq> None")
    case True
    then obtain s' where s': "s = t @ s'" by (auto simp: startswith_iff)
    with True Cons.prems have "k t s' = Some r" by auto
    with s' show ?thesis by auto
  next
    case False
    with Cons.prems have "alt ts k s = Some r" by (auto split: if_splits option.splits)
    from Cons.IH [OF this] show ?thesis by auto
  qed
qed

lemma alt_only:
  assumes "t \<in> set ts" and "startswith s t"
    and "\<And>t'. t' \<in> set ts \<Longrightarrow> t' \<noteq> t \<Longrightarrow> startswith s t' \<Longrightarrow>
           k t' (drop (length t') s) = None"
  shows "alt ts k s = k t (drop (length t) s)"
  using assms
proof (induction ts)
  case Nil
  then show ?case by simp
next
  case (Cons a ts)
  show ?case
  proof (cases "a = t")
    case True
    show ?thesis
    proof (cases "k t (drop (length t) s)")
      case (Some r)
      with True Cons.prems(2) show ?thesis by simp
    next
      case None
      have "alt ts k s = None"
      proof (rule ccontr)
        assume "alt ts k s \<noteq> None"
        then obtain r where "alt ts k s = Some r" by auto
        from alt_Some_D [OF this] obtain t' s' where
          t': "t' \<in> set ts" "s = t' @ s'" "k t' s' = Some r" by blast
        then have "startswith s t'" by (auto simp: startswith_iff)
        with t' None Cons.prems(3) [of t'] show False
          by (cases "t' = t") auto
      qed
      with True None Cons.prems(2) show ?thesis by simp
    qed
  next
    case False
    with Cons.prems have "t \<in> set ts" by simp
    from Cons.IH [OF this Cons.prems(2)] Cons.prems(3)
    have IH: "alt ts k s = k t (drop (length t) s)" by simp
    from False Cons.prems(3) [of a] have "startswith s a \<Longrightarrow> k a (drop (length a) s) = None"
      by simp
    with IH show ?thesis by auto
  qed
qed

lemma dash_free_split:
  "CHR ''-'' \<notin> set M \<Longrightarrow> CHR ''-'' \<notin> set t \<Longrightarrow>
   M @ CHR ''-'' # r = t @ CHR ''-'' # r' \<Longrightarrow> t = M"
proof (induction M arbitrary: t)
  case Nil
  consider (e) "t = []" | (c) b t' where "t = b # t'" by (cases t) auto
  then show ?case
  proof cases
    case e
    then show ?thesis by simp
  next
    case c
    with Nil.prems(3) have "b = CHR ''-''" by simp
    with c Nil.prems(2) show ?thesis by simp
  qed
next
  case (Cons a M)
  consider (e) "t = []" | (c) b t' where "t = b # t'" by (cases t) auto
  then show ?case
  proof cases
    case e
    with Cons.prems(3) have "a = CHR ''-''" by simp
    with Cons.prems(1) show ?thesis by simp
  next
    case c
    with Cons.prems have "a = b" and "M @ CHR ''-'' # r = t' @ CHR ''-'' # r'"
      and "CHR ''-'' \<notin> set M" and "CHR ''-'' \<notin> set t'"
      by simp_all
    with Cons.IH [of t'] c show ?thesis by simp
  qed
qed

lemma m_alts_no_dash: "list_all (\<lambda>t. CHR ''-'' \<notin> set t) m_alts"
  by code_simp

lemma m_alts_dash_free: "t \<in> set m_alts \<Longrightarrow> CHR ''-'' \<notin> set t"
  using m_alts_no_dash unfolding list_all_iff by blast

lemma alt_month:
  assumes "M \<in> set m_alts"
  shows "alt m_alts (\<lambda>m. lit CHR ''-'' (K m)) (M @ CHR ''-'' # r) = K M r"
proof -
  have "alt m_alts (\<lambda>m. lit CHR ''-'' (K m)) (M @ CHR ''-'' # r)
          = lit CHR ''-'' (K M) (drop (length M) (M @ CHR ''-'' # r))"
  proof (rule alt_only [OF assms])
    show "startswith (M @ CHR ''-'' # r) M" by (simp add: startswith_def)
  next
    fix t'
    assume t': "t' \<in> set m_alts" "t' \<noteq> M" "startswith (M @ CHR ''-'' # r) t'"
    then obtain s' where s': "M @ CHR ''-'' # r = t' @ s'" by (auto simp: startswith_iff)
    show "lit CHR ''-'' (K t') (drop (length t') (M @ CHR ''-'' # r)) = None"
    proof (rule ccontr)
      assume "lit CHR ''-'' (K t') (drop (length t') (M @ CHR ''-'' # r)) \<noteq> None"
      then obtain x xs where "lit CHR ''-'' (K t') s' = Some x" by (auto simp: s')
      then obtain xs where "s' = CHR ''-'' # xs" by (auto simp: lit_Some)
      with s' have "M @ CHR ''-'' # r = t' @ CHR ''-'' # xs" by simp
      from dash_free_split [OF m_alts_dash_free [OF assms] m_alts_dash_free [OF t'(1)] this]
      show False using t'(2) by simp
    qed
  qed
  then show ?thesis by (simp add: lit_def)
qed

lemma alt_total:
  "alt ts (\<lambda>d rest. Some (F d rest)) s
     = map_option (\<lambda>t. F t (drop (length t) s)) (find (startswith s) ts)"
  by (induction ts) simp_all

lemma d_alts_first: "list_all (\<lambda>D. find (startswith D) d_alts = Some D) d_alts"
  by code_simp

lemma alt_day:
  "D \<in> set d_alts \<Longrightarrow> alt d_alts (\<lambda>d rest. Some (F d rest)) D = Some (F D [])"
  using d_alts_first by (simp add: alt_total list_all_iff)


lemma regex_match_D:
  assumes "regex_match s = Some (Y, M, D, rest)"
  shows "s = Y @ CHR ''-'' # M @ CHR ''-'' # D @ rest \<and> length Y = 4 \<and> list_all is_digit Y
         \<and> M \<in> set m_alts \<and> D \<in> set d_alts"
proof -
  from assms obtain Y' r1 where
    y: "s = Y' @ r1" "length Y' = 4" "list_all is_digit Y'"
    and k1: "lit CHR ''-'' (alt m_alts (\<lambda>m. lit CHR ''-''
               (alt d_alts (\<lambda>d rest. Some (Y', m, d, rest))))) r1 = Some (Y, M, D, rest)"
    unfolding regex_match_def four_digits_Some by blast
  from k1 obtain r2 where
    r1: "r1 = CHR ''-'' # r2"
    and k2: "alt m_alts (\<lambda>m. lit CHR ''-''
               (alt d_alts (\<lambda>d rest. Some (Y', m, d, rest)))) r2 = Some (Y, M, D, rest)"
    unfolding lit_Some by blast
  from alt_Some_D [OF k2] obtain M' r3 where
    m: "M' \<in> set m_alts" "r2 = M' @ r3"
    and k3: "lit CHR ''-'' (alt d_alts (\<lambda>d rest. Some (Y', M', d, rest))) r3
               = Some (Y, M, D, rest)"
    by blast
  from k3 obtain r4 where
    r3: "r3 = CHR ''-'' # r4"
    and k4: "alt d_alts (\<lambda>d rest. Some (Y', M', d, rest)) r4 = Some (Y, M, D, rest)"
    unfolding lit_Some by blast
  from alt_Some_D [OF k4] obtain D' r5 where
    d: "D' \<in> set d_alts" "r4 = D' @ r5" "Some (Y', M', D', r5) = Some (Y, M, D, rest)"
    by blast
  then have "Y' = Y" "M' = M" "D' = D" "r5 = rest" by simp_all
  with y r1 m r3 d show ?thesis by simp
qed

lemma regex_match_I:
  assumes "length Y = 4" and "list_all is_digit Y" and "M \<in> set m_alts" and "D \<in> set d_alts"
  shows "regex_match (Y @ CHR ''-'' # M @ CHR ''-'' # D) = Some (Y, M, D, [])"
proof -
  have "regex_match (Y @ CHR ''-'' # M @ CHR ''-'' # D)
          = lit CHR ''-'' (alt m_alts (\<lambda>m. lit CHR ''-''
              (alt d_alts (\<lambda>d rest. Some (Y, m, d, rest))))) (CHR ''-'' # M @ CHR ''-'' # D)"
    using assms(1,2) by (simp add: regex_match_def four_digits_def)
  also have "\<dots> = alt m_alts (\<lambda>m. lit CHR ''-''
              (alt d_alts (\<lambda>d rest. Some (Y, m, d, rest)))) (M @ CHR ''-'' # D)"
    by (simp add: lit_def)
  also have "\<dots> = alt d_alts (\<lambda>d rest. Some (Y, M, d, rest)) D"
    by (rule alt_month [OF assms(3)])
  also have "\<dots> = Some (Y, M, D, [])"
    by (rule alt_day [OF assms(4)])
  finally show ?thesis .
qed

lemma parse_date_iff:
  "parse_date s = Some (Date y m d) \<longleftrightarrow>
   (\<exists>Y M D. s = Y @ ''-'' @ M @ ''-'' @ D \<and> length Y = 4 \<and> list_all is_digit Y
      \<and> M \<in> set m_alts \<and> D \<in> set d_alts
      \<and> py_int Y = Inr y \<and> py_int M = Inr m \<and> py_int D = Inr d \<and> check_date_fields y m d)"
proof
  assume p: "parse_date s = Some (Date y m d)"
  then obtain Y M D rest where r: "regex_match s = Some (Y, M, D, rest)"
    by (auto simp: parse_date_def strptime_def split: option.splits sum.splits)
  with p have "rest = [] \<and> py_int Y = Inr y \<and> py_int M = Inr m \<and> py_int D = Inr d
               \<and> check_date_fields y m d"
    by (auto simp: parse_date_def strptime_def split: option.splits sum.splits if_splits)
  with regex_match_D [OF r] have
    "s = Y @ ''-'' @ M @ ''-'' @ D \<and> length Y = 4 \<and> list_all is_digit Y
      \<and> M \<in> set m_alts \<and> D \<in> set d_alts
      \<and> py_int Y = Inr y \<and> py_int M = Inr m \<and> py_int D = Inr d \<and> check_date_fields y m d"
    by simp
  then show "\<exists>Y M D. s = Y @ ''-'' @ M @ ''-'' @ D \<and> length Y = 4 \<and> list_all is_digit Y
      \<and> M \<in> set m_alts \<and> D \<in> set d_alts
      \<and> py_int Y = Inr y \<and> py_int M = Inr m \<and> py_int D = Inr d \<and> check_date_fields y m d"
    by blast
next
  assume "\<exists>Y M D. s = Y @ ''-'' @ M @ ''-'' @ D \<and> length Y = 4 \<and> list_all is_digit Y
      \<and> M \<in> set m_alts \<and> D \<in> set d_alts
      \<and> py_int Y = Inr y \<and> py_int M = Inr m \<and> py_int D = Inr d \<and> check_date_fields y m d"
  then obtain Y M D where
    s: "s = Y @ CHR ''-'' # M @ CHR ''-'' # D"
    and t: "length Y = 4" "list_all is_digit Y" "M \<in> set m_alts" "D \<in> set d_alts"
    and v: "py_int Y = Inr y" "py_int M = Inr m" "py_int D = Inr d" "check_date_fields y m d"
    by auto
  from regex_match_I [OF t] v show "parse_date s = Some (Date y m d)"
    by (simp add: parse_date_def strptime_def s)
qed

lemma zfill_all_digits: "list_all is_digit (zfill w (digits_of n))"
  using digits_of_all_digits [of n]
  by (auto simp: zfill_def is_digit_zero list_all_iff)

lemma py_int_zfill: "py_int (zfill w (digits_of n)) = Inr (int n)"
proof -
  have "zfill w (digits_of n) \<noteq> []" by (simp add: zfill_def digits_of_nonempty)
  then have "py_int (zfill w (digits_of n)) = Inr (digits_value (zfill w (digits_of n)))"
    using zfill_all_digits by (rule py_int_all_digits)
  then show ?thesis by (simp add: zfill_def digits_value_zeros digits_value_digits_of)
qed

lemma length_digits_of: "0 < k \<Longrightarrow> n < 10 ^ k \<Longrightarrow> length (digits_of n) \<le> k"
proof (induction k arbitrary: n)
  case 0
  then show ?case by simp
next
  case (Suc k)
  show ?case
  proof (cases "n < 10")
    case True
    then show ?thesis by (subst digits_of.simps) simp
  next
    case False
    with Suc.prems have "n div 10 < 10 ^ k" by simp
    moreover from False this have "0 < k" by (cases k) auto
    ultimately have "length (digits_of (n div 10)) \<le> k" by (rule Suc.IH [rotated])
    with False show ?thesis by (subst digits_of.simps) simp
  qed
qed

lemma length_zfill_year: "y \<le> 9999 \<Longrightarrow> length (zfill 4 (digits_of (nat y))) = 4"
proof -
  assume "y \<le> 9999"
  then have "nat y < 10 ^ 4" by simp
  then have "length (digits_of (nat y)) \<le> 4" by (intro length_digits_of) simp_all
  then show ?thesis by (simp add: zfill_def)
qed

lemma month_texts:
  "list_all (\<lambda>m. zfill 2 (digits_of m) \<in> set m_alts \<and> length (zfill 2 (digits_of m)) = 2)
     [1..<13]"
  by code_simp

lemma day_texts:
  "list_all (\<lambda>d. zfill 2 (digits_of d) \<in> set d_alts \<and> length (zfill 2 (digits_of d)) = 2)
     [1..<32]"
  by code_simp

lemma days_in_month_le: "1 \<le> m \<Longrightarrow> m \<le> 12 \<Longrightarrow> days_in_month y m \<le> 31"
proof -
  assume "1 \<le> m" "m \<le> 12"
  then have "m \<in> {1, 2, 3, 4, 5, 6, 7, 8, 9, 10, 11, 12}" by simp presburger
  then show ?thesis by (auto simp: days_in_month_def)
qed

lemma parse_date_isoformat:
  assumes "check_date_fields y m d"
  shows "parse_date (isoformat (Date y m d)) = Some (Date y m d)"
    and "strict_ymd (isoformat (Date y m d))"
proof -
  let ?Y = "zfill 4 (digits_of (nat y))"
  let ?M = "zfill 2 (digits_of (nat m))"
  let ?D = "zfill 2 (digits_of (nat d))"
  from assms have r: "1 \<le> y" "y \<le> 9999" "1 \<le> m" "m \<le> 12" "1 \<le> d" "d \<le> days_in_month y m"
    by (simp_all add: check_date_fields_def)
  then have "d \<le> 31" using days_in_month_le [of m y] by simp
  with r have "nat m \<in> set [1..<13]" "nat d \<in> set [1..<32]" by auto
  with month_texts day_texts have
    t: "?M \<in> set m_alts" "length ?M = 2" "?D \<in> set d_alts" "length ?D = 2"
    unfolding list_all_iff by blast+
  have ly: "length ?Y = 4" using r by (simp add: length_zfill_year)
  have v: "py_int ?Y = Inr y" "py_int ?M = Inr m" "py_int ?D = Inr d"
    using r by (simp_all add: py_int_zfill)
  have "\<exists>Y M D. isoformat (Date y m d) = Y @ ''-'' @ M @ ''-'' @ D \<and> length Y = 4
      \<and> list_all is_digit Y \<and> M \<in> set m_alts \<and> D \<in> set d_alts
      \<and> py_int Y = Inr y \<and> py_int M = Inr m \<and> py_int D = Inr d \<and> check_date_fields y m d"
    using ly zfill_all_digits t v assms unfolding isoformat_def date.sel by blast
  then show "parse_date (isoformat (Date y m d)) = Some (Date y m d)"
    by (simp only: parse_date_iff)
  have "list_all is_digit ?Y" "list_all is_digit ?M" "list_all is_digit ?D"
    by (rule zfill_all_digits)+
  with ly t(2,4) show "strict_ymd (isoformat (Date y m d))"
    by (simp add: strict_ymd_def isoformat_def nth_append)
qed

lemma parse_malformed:
  "parse_date ''2024-13-40'' = None" "parse_date ''not-a-date'' = None"
  by code_simp+

lemma calculate_nights_Some:
  "parse_date a = Some da \<Longrightarrow> parse_date b = Some db \<Longrightarrow>
   calculate_nights a b = Some (toordinal db - toordinal da)"
  by (simp add: calculate_nights_def)

text \<open>
  C9, as the specification states it, fails: \<open>parse_date\<close> accepts a month and a day
  written without the leading zero, and a text such as \<open>2024-1-5\<close> is not a strict
  \<open>YYYY-MM-DD\<close> literal.
\<close>

theorem parse_date_not_strict_counterexample:
  "parse_date ''2024-1-5'' = Some (Date 2024 1 5) \<and> \<not> strict_ymd ''2024-1-5''"
  by code_simp

text \<open>
  C9, amended. \<open>parse_date\<close> never raises: an exception of the parse gives \<open>None\<close>.
  It returns the date \<open>y\<close>, \<open>m\<close>, \<open>d\<close> exactly for the texts made of four digits,
  a hyphen, a month, a hyphen and a day, where the month is written as 1 to 9 or 01 to
  12, the day as 1 to 9, 01 to 31 or a space and 1 to 9, and the three numbers are a
  date of the calendar in the years 1 to 9999. Every strict \<open>YYYY-MM-DD\<close> literal of
  such a date is accepted; \<open>2024-13-40\<close> and \<open>not-a-date\<close> are not. \<open>calculate_nights\<close>
  is \<open>None\<close> when one of its dates does not parse and otherwise the difference of the
  two days, which may be zero or negative. For a known room type \<open>create_booking\<close>
  rejects a date that does not parse with the date-format message.
\<close>

theorem parse_date_accepts:
  "(strptime s = Inl e \<longrightarrow> parse_date s = None)
   \<and> (parse_date s = Some (Date y m d) \<longleftrightarrow>
       (\<exists>Y M D. s = Y @ ''-'' @ M @ ''-'' @ D \<and> length Y = 4 \<and> list_all is_digit Y
          \<and> M \<in> set m_alts \<and> D \<in> set d_alts
          \<and> py_int Y = Inr y \<and> py_int M = Inr m \<and> py_int D = Inr d
          \<and> check_date_fields y m d))
   \<and> (check_date_fields y m d \<longrightarrow>
        strict_ymd (isoformat (Date y m d))
        \<and> parse_date (isoformat (Date y m d)) = Some (Date y m d))
   \<and> parse_date ''2024-13-40'' = None \<and> parse_date ''not-a-date'' = None
   \<and> (parse_date a = None \<or> parse_date b = None \<longrightarrow> calculate_nights a b = None)
   \<and> (parse_date a = Some da \<and> parse_date b = Some db \<longrightarrow>
        calculate_nights a b = Some (toordinal db - toordinal da))
   \<and> calculate_nights ''2024-02-05'' ''2024-02-01'' = Some (- 4)
   \<and> (rooms rt \<noteq> None \<and> (parse_date ci = None \<or> parse_date co = None) \<longrightarrow>
        fst (create_booking st now gname mail ph rt ci co gs)
          = Inr (None, ''Invalid date format. Use YYYY-MM-DD''))"
proof (intro conjI impI)
  assume "strptime s = Inl e"
  then show "parse_date s = None" by (simp add: parse_date_def)
next
  show "parse_date s = Some (Date y m d) \<longleftrightarrow>
       (\<exists>Y M D. s = Y @ ''-'' @ M @ ''-'' @ D \<and> length Y = 4 \<and> list_all is_digit Y
          \<and> M \<in> set m_alts \<and> D \<in> set d_alts
          \<and> py_int Y = Inr y \<and> py_int M = Inr m \<and> py_int D = Inr d
          \<and> check_date_fields y m d)"
    by (rule parse_date_iff)
next
  assume c: "check_date_fields y m d"
  then show "strict_ymd (isoformat (Date y m d))"
    by (rule parse_date_isoformat)
  from c show "parse_date (isoformat (Date y m d)) = Some (Date y m d)"
    by (rule parse_date_isoformat)
next
  show "parse_date ''2024-13-40'' = None" "parse_date ''not-a-date'' = None"
    by (rule parse_malformed)+
next
  assume "parse_date a = None \<or> parse_date b = None"
  then show "calculate_nights a b = None" by (simp add: calculate_nights_None)
next
  assume "parse_date a = Some da \<and> parse_date b = Some db"
  then show "calculate_nights a b = Some (toordinal db - toordinal da)"
    by (simp add: calculate_nights_Some)
next
  have "toordinal (Date 2024 2 1) - toordinal (Date 2024 2 5) = - 4"
    using feb_nights(1) by simp
  then show "calculate_nights ''2024-02-05'' ''2024-02-01'' = Some (- 4)"
    by (simp add: calculate_nights_Some [OF parse_feb_05 parse_feb_01])
next
  assume "rooms rt \<noteq> None \<and> (parse_date ci = None \<or> parse_date co = None)"
  then have "rooms rt \<noteq> None" "calculate_nights ci co = None"
    by (simp_all add: calculate_nights_None)
  then show "fst (create_booking st now gname mail ph rt ci co gs)
          = Inr (None, ''Invalid date format. Use YYYY-MM-DD'')"
    by (auto simp: create_booking_def)
qed

theorem parse_date_accepts_witness:
  "check_date_fields 2024 2 29
   \<and> isoformat (Date 2024 2 29) = ''2024-02-29''
   \<and> strict_ymd ''2024-02-29''
   \<and> parse_date ''2024-02-29'' = Some (Date 2024 2 29)
   \<and> parse_date ''2024-13-40'' = None
   \<and> calculate_nights ''2024-13-40'' ''2024-02-05'' = None
   \<and> parse_date ''2024-02-01'' = Some (Date 2024 2 1)
   \<and> parse_date ''2024-02-05'' = Some (Date 2024 2 5)
   \<and> calculate_nights ''2024-02-01'' ''2024-02-05'' = Some 4
   \<and> rooms ''single'' \<noteq> None
   \<and> fst (create_booking sample_system ''t'' ''Asha'' ''a@x.org'' ''1'' ''single''
            ''2024-02-01'' ''2024-13-40'' 2) = Inr (None, ''Invalid date format. Use YYYY-MM-DD'')"
proof -
  have c: "check_date_fields 2024 2 29"
    by code_simp
  have i: "isoformat (Date 2024 2 29) = ''2024-02-29''"
    by code_simp
  note t1 = parse_date_accepts [where y = 2024 and m = 2 and d = 29]
  have s: "strict_ymd ''2024-02-29''" and p: "parse_date ''2024-02-29'' = Some (Date 2024 2 29)"
    using t1 c unfolding i by blast+
  have bad: "parse_date ''2024-13-40'' = None"
    by (rule parse_malformed)
  have n0: "calculate_nights ''2024-13-40'' ''2024-02-05'' = None"
    using parse_date_accepts [where a = "''2024-13-40''" and b = "''2024-02-05''"] bad
    by blast
  have n4: "calculate_nights ''2024-02-01'' ''2024-02-05'' = Some 4"
    using parse_date_accepts
      [where a = "''2024-02-01''" and b = "''2024-02-05''" and da = "Date 2024 2 1"
         and db = "Date 2024 2 5"]
      parse_feb_01 parse_feb_05 feb_nights(1)
    by simp
  have r: "rooms ''single'' \<noteq> None"
    by (simp add: rooms_single)
  have cb: "fst (create_booking sample_system ''t'' ''Asha'' ''a@x.org'' ''1'' ''single''
            ''2024-02-01'' ''2024-13-40'' 2) = Inr (None, ''Invalid date format. Use YYYY-MM-DD'')"
    using parse_date_accepts
      [where rt = "''single''" and ci = "''2024-02-01''" and co = "''2024-13-40''"
         and st = sample_system]
      r bad
    by blast
  show ?thesis using c i s p bad n0 parse_feb_01 parse_feb_05 n4 r cb by blast
qed

section \<open>The ledger keeps well-formed dates\<close>

text \<open>
  The counting results above assume that the stored dates of the counted bookings
  parse. The operations keep this: the empty ledger has it, \<open>create_booking\<close> stores
  only dates that it has parsed, and \<open>cancel_booking\<close> leaves the dates alone. On a
  ledger that lacks it, comparing with the \<open>None\<close> of a failed parse raises TypeError.
\<close>

lemma stored_dates_ok_relevant: "list_all stored_dates_ok bs \<Longrightarrow> relevant_dates_ok rt bs"
  by (auto simp: relevant_dates_ok_def list_all_iff)

lemma empty_system_dates_ok: "list_all stored_dates_ok (bookings empty_system)"
  by (simp add: empty_system_def)

lemma create_booking_keeps_dates_ok:
  assumes "list_all stored_dates_ok (bookings st)"
  shows "list_all stored_dates_ok (bookings (snd (create_booking st now gname mail ph rt ci co gs)))"
proof (cases "\<exists>b msg. fst (create_booking st now gname mail ph rt ci co gs) = Inr (Some b, msg)")
  case True
  then obtain b msg where a: "fst (create_booking st now gname mail ph rt ci co gs) = Inr (Some b, msg)"
    by blast
  then have "bookings (snd (create_booking st now gname mail ph rt ci co gs)) = bookings st @ [b]"
    using create_booking_accepted by blast
  moreover from a have "check_in b = ci \<and> check_out b = co \<and> calculate_nights ci co \<noteq> None"
    by (auto simp: create_booking_def Let_def split: option.splits sum.splits if_splits)
  then have "stored_dates_ok b"
    by (simp add: stored_dates_ok_def calculate_nights_None)
  ultimately show ?thesis using assms by simp
next
  case False
  then have "snd (create_booking st now gname mail ph rt ci co gs) = st"
    by (auto simp: create_booking_def Let_def split: option.splits sum.splits if_splits)
  with assms show ?thesis by simp
qed

lemma cancel_booking_keeps_dates_ok:
  assumes "list_all stored_dates_ok (bookings st)"
  shows "list_all stored_dates_ok (bookings (snd (cancel_booking st now bid)))"
proof (cases "get_booking st bid")
  case None
  with assms show ?thesis by (simp add: cancel_booking_missing)
next
  case (Some b)
  show ?thesis
  proof (cases "status b = ''cancelled''")
    case True
    with Some assms show ?thesis by (simp add: cancel_booking_cancelled)
  next
    case False
    from cancel_booking_active [OF Some False, of now] obtain pre post where
      p: "bookings st = pre @ b # post"
         "bookings (snd (cancel_booking st now bid))
            = pre @ b\<lparr>status := ''cancelled'', cancelled_at := Some now\<rparr> # post"
      by force
    from assms show ?thesis
      unfolding p by (simp add: stored_dates_ok_def)
  qed
qed

lemma booked_count_raises_on_malformed_stored_date:
  "booked_count_for_range
     \<lparr>bookings = [sample_booking ''BK0001'' ''single'' ''soon'' ''2024-02-05'' ''confirmed''],
      disk = [], writes = 0\<rparr>
     ''single'' ''2024-02-01'' ''2024-02-03'' = Inl TypeError"
  by code_simp

end
